theory Spec2Isabelle
  imports Complex_Main "HOL-Library.Sublist" "HOL-Library.AList"
begin

section \<open>Host-language primitives\<close>

text \<open>
  A JavaScript number is modelled as an exact \<^typ>\<open>real\<close>: products, sums and
  comparisons are the mathematical ones, the IEEE rounding of intermediate results is
  not represented. Division keeps the one case where the two differ in kind: a zero
  divisor yields \<open>NaN\<close> or an infinity in the program, and every comparison with such a
  value is false (see \<open>priceDiffPercent\<close> below).

  \<open>Math.random()\<close> returns a number \<open>u\<close> with \<open>0 \<le> u < 1\<close>. Each call the program
  makes is an explicit argument of the model, so that a theorem speaks about every
  value the generator can return. The simulated latencies (\<open>delay\<close>) do not influence
  any returned value and are left out.
\<close>

definition unit_sample :: "real \<Rightarrow> bool" where
  "unit_sample u = (0 \<le> u \<and> u < 1)"

text \<open>
  \<open>x.toFixed(f)\<close> for a non-negative \<open>x\<close> below \<open>10^21\<close> picks the integer \<open>n\<close>
  for which \<open>n / 10^f - x\<close> is closest to zero, the larger one on a tie, and prints
  \<open>n\<close> with a decimal point before its last \<open>f\<close> digits. A negative \<open>x\<close> is
  printed as \<open>-\<close> followed by the text for \<open>-x\<close>.
\<close>

definition toFixed_scaled :: "nat \<Rightarrow> real \<Rightarrow> nat" where
  "toFixed_scaled f x = nat \<lfloor>x * 10 ^ f + 1 / 2\<rfloor>"

text \<open>
  \<open>Number(x.toFixed(f))\<close>: the number read back from the printed text. From \<open>10^21\<close>
  on, \<open>toFixed\<close> prints the number itself (in exponent notation), which reads back as
  \<open>x\<close>.
\<close>

definition toFixed_num :: "real \<Rightarrow> nat \<Rightarrow> real" where
  "toFixed_num x f =
     (if 10 ^ 21 \<le> \<bar>x\<bar> then x
      else if x < 0 then - (real (toFixed_scaled f (- x)) / 10 ^ f)
      else real (toFixed_scaled f x) / 10 ^ f)"

definition digit_char :: "nat \<Rightarrow> char" where
  "digit_char d = ''0123456789'' ! d"

fun nat_digits :: "nat \<Rightarrow> string" where
  "nat_digits n = (if n < 10 then [digit_char n] else nat_digits (n div 10) @ [digit_char (n mod 10)])"

declare nat_digits.simps [simp del]

text \<open>
  The printed text of \<open>x.toFixed(f)\<close>. The program formats effective prices and
  liquidity percentages only; both stay far below \<open>10^21\<close> (quoted prices are at most
  \<open>2 * 10^7\<close>, lemmas \<open>raydium_price_bounds\<close> and \<open>meteora_price_bounds\<close>), where the text is
  the decimal expansion computed here.
\<close>

definition toFixed :: "real \<Rightarrow> nat \<Rightarrow> string" where
  "toFixed x f =
     (let s = (if x < 0 then ''-'' else '''');
          m = nat_digits (toFixed_scaled f \<bar>x\<bar>);
          m = (if f \<noteq> 0 \<and> length m \<le> f then replicate (f + 1 - length m) (CHR ''0'') @ m else m);
          k = length m
      in if f = 0 then s @ m else s @ take (k - f) m @ ''.'' @ drop (k - f) m)"

text \<open>\<open>s.includes(t)\<close>: \<open>t\<close> occurs in \<open>s\<close> as a contiguous substring.\<close>

fun str_includes :: "string \<Rightarrow> string \<Rightarrow> bool" where
  "str_includes [] t = (t = [])"
| "str_includes (c # cs) t = (prefix t (c # cs) \<or> str_includes cs t)"

definition lower_char :: "char \<Rightarrow> char" where
  "lower_char c =
     (case map_of (zip ''ABCDEFGHIJKLMNOPQRSTUVWXYZ'' ''abcdefghijklmnopqrstuvwxyz'') c of
        Some l \<Rightarrow> l
      | None \<Rightarrow> c)"

definition toLowerCase :: "string \<Rightarrow> string" where
  "toLowerCase s = map lower_char s"

section \<open>Types of the order engine (types/order.ts)\<close>

definition SOL :: string where "SOL = ''So11111111111111111111111111111111111111112''"
definition USDC :: string where "USDC = ''EPjFWdd5AufqSSqeM2qN1xzybapC8G4wEGGkZwyTDt1v''"
definition BONK :: string where "BONK = ''DezXAZ8z7PnrnRJjz3wXBoRgixCa6xjnB7YaB1pPB263''"
definition RAY :: string where "RAY = ''4k3Dyjzvzp8eMZWUXbBCjEvwSkkk59S5iCNLY3QrkX6R''"

datatype Dex = Raydium | Meteora

fun dex_name :: "Dex \<Rightarrow> string" where
  "dex_name Raydium = ''Raydium''"
| "dex_name Meteora = ''Meteora''"

record DexQuote =
  dex :: Dex
  price :: real
  fee :: real
  liquidityScore :: real

record RoutingResult =
  selectedDex :: Dex
  raydiumQuote :: DexQuote
  meteoraQuote :: DexQuote
  reason :: string

text \<open>\<open>SwapResult\<close>; its field \<open>dex\<close> is \<open>swapDex\<close> here.\<close>

record SwapResult =
  success :: bool
  txHash :: string
  executedPrice :: real
  swapDex :: Dex
  slippage :: real

text \<open>
  \<open>BASE_PRICES\<close>, a table from token address to reference price in USDC. A token address
  has at least 32 characters (the request schema), more than any property name an object
  inherits, so a lookup finds one of the four entries or nothing.
\<close>

definition BASE_PRICES :: "string \<Rightarrow> real option" where
  "BASE_PRICES t =
     (if t = SOL then Some 100
      else if t = USDC then Some 1
      else if t = BONK then Some (1 / 100000)
      else if t = RAY then Some (1 / 2)
      else None)"

section \<open>The mock DEX router (services/dexRouter.ts)\<close>

text \<open>\<open>v || d\<close> on a table lookup: a missing entry and the number zero are falsy.\<close>

definition or_default :: "real option \<Rightarrow> real \<Rightarrow> real" where
  "or_default v d = (case v of None \<Rightarrow> d | Some x \<Rightarrow> if x = 0 then d else x)"

definition getVariedPrice :: "real \<Rightarrow> real \<Rightarrow> real \<Rightarrow> real \<Rightarrow> real" where
  "getVariedPrice basePrice minMultiplier maxMultiplier u =
     (let variance = minMultiplier + u * (maxMultiplier - minMultiplier)
      in basePrice * variance)"

definition getBaseExchangeRate :: "string \<Rightarrow> string \<Rightarrow> real" where
  "getBaseExchangeRate tokenIn tokenOut =
     (let priceIn = or_default (BASE_PRICES tokenIn) 1;
          priceOut = or_default (BASE_PRICES tokenOut) 1
      in priceIn / priceOut)"

text \<open>
  The two quote functions. \<open>uPrice\<close> and \<open>uLiq\<close> are the values of the two calls of
  \<open>Math.random()\<close> that enter the quote.
\<close>

definition getRaydiumQuote :: "string \<Rightarrow> string \<Rightarrow> real \<Rightarrow> real \<Rightarrow> real \<Rightarrow> DexQuote" where
  "getRaydiumQuote tokenIn tokenOut amount uPrice uLiq =
     (let baseRate = getBaseExchangeRate tokenIn tokenOut;
          p = getVariedPrice baseRate (98 / 100) (102 / 100) uPrice;
          isSolPair = (str_includes tokenIn ''So11'' \<or> str_includes tokenOut ''So11'');
          liq = (if isSolPair then 85 / 100 + uLiq * (1 / 10) else 7 / 10 + uLiq * (15 / 100))
      in \<lparr>dex = Raydium, price = toFixed_num p 8, fee = 3 / 1000,
          liquidityScore = toFixed_num liq 3\<rparr>)"

definition getMeteorQuote :: "string \<Rightarrow> string \<Rightarrow> real \<Rightarrow> real \<Rightarrow> real \<Rightarrow> DexQuote" where
  "getMeteorQuote tokenIn tokenOut amount uPrice uLiq =
     (let baseRate = getBaseExchangeRate tokenIn tokenOut;
          p = getVariedPrice baseRate (97 / 100) (102 / 100) uPrice;
          liq = 65 / 100 + uLiq * (2 / 10)
      in \<lparr>dex = Meteora, price = toFixed_num p 8, fee = 2 / 1000,
          liquidityScore = toFixed_num liq 3\<rparr>)"

text \<open>
  \<open>Math.abs(r - m) / Math.max(r, m) * 100\<close>. With a zero divisor the program's value
  is \<open>NaN\<close> or an infinity; \<open>None\<close> stands for both, and \<open>lessThanOne\<close> is the
  comparison \<open>priceDiffPercent < 1.0\<close>, false on them.
\<close>

definition priceDiffPercent :: "real \<Rightarrow> real \<Rightarrow> real option" where
  "priceDiffPercent raydiumEffective meteoraEffective =
     (if max raydiumEffective meteoraEffective = 0 then None
      else Some (\<bar>raydiumEffective - meteoraEffective\<bar> / max raydiumEffective meteoraEffective * 100))"

definition lessThanOne :: "real option \<Rightarrow> bool" where
  "lessThanOne p = (case p of None \<Rightarrow> False | Some v \<Rightarrow> v < 1)"

definition effectivePrice :: "DexQuote \<Rightarrow> real" where
  "effectivePrice q = price q * (1 - fee q)"

definition bestPriceReason :: "Dex \<Rightarrow> real \<Rightarrow> real \<Rightarrow> string" where
  "bestPriceReason sel raydiumEffective meteoraEffective =
     ''Best effective price: '' @ dex_name sel @ '' ('' @
       (if sel = Raydium then toFixed raydiumEffective 6 else toFixed meteoraEffective 6) @ '')''"

definition liquidityReason :: "Dex \<Rightarrow> real \<Rightarrow> real \<Rightarrow> string" where
  "liquidityReason sel selScore otherScore =
     ''Large order - '' @ dex_name sel @ '' has better liquidity ('' @
       toFixed (selScore * 100) 1 @ ''% vs '' @ toFixed (otherScore * 100) 1 @ ''%) with similar price''"

text \<open>The decision of \<open>compareAndRoute\<close>, from the two fetched quotes on.\<close>

definition routeQuotes :: "real \<Rightarrow> DexQuote \<Rightarrow> DexQuote \<Rightarrow> RoutingResult" where
  "routeQuotes amount rq mq =
     (let raydiumEffective = price rq * (1 - fee rq);
          meteoraEffective = price mq * (1 - fee mq);
          isLargeOrder = (amount > 100);
          liquidityThreshold = 8 / 10;
          best = (if raydiumEffective \<ge> meteoraEffective then Raydium else Meteora)
      in if isLargeOrder then
           (let pdp = priceDiffPercent raydiumEffective meteoraEffective
            in if lessThanOne pdp \<and> liquidityScore rq > liquidityThreshold
                  \<and> liquidityScore rq > liquidityScore mq
               then \<lparr>selectedDex = Raydium, raydiumQuote = rq, meteoraQuote = mq,
                     reason = liquidityReason Raydium (liquidityScore rq) (liquidityScore mq)\<rparr>
               else if lessThanOne pdp \<and> liquidityScore mq > liquidityThreshold
                  \<and> liquidityScore mq > liquidityScore rq
               then \<lparr>selectedDex = Meteora, raydiumQuote = rq, meteoraQuote = mq,
                     reason = liquidityReason Meteora (liquidityScore mq) (liquidityScore rq)\<rparr>
               else \<lparr>selectedDex = best, raydiumQuote = rq, meteoraQuote = mq,
                     reason = bestPriceReason best raydiumEffective meteoraEffective\<rparr>)
         else \<lparr>selectedDex = best, raydiumQuote = rq, meteoraQuote = mq,
               reason = bestPriceReason best raydiumEffective meteoraEffective\<rparr>)"

text \<open>The four random values that enter the two quotes of one routing request.\<close>

record RouteSamples =
  raydiumPriceU :: real
  raydiumLiqU :: real
  meteoraPriceU :: real
  meteoraLiqU :: real

definition route_samples_ok :: "RouteSamples \<Rightarrow> bool" where
  "route_samples_ok s =
     (unit_sample (raydiumPriceU s) \<and> unit_sample (raydiumLiqU s) \<and>
      unit_sample (meteoraPriceU s) \<and> unit_sample (meteoraLiqU s))"

definition compareAndRoute :: "string \<Rightarrow> string \<Rightarrow> real \<Rightarrow> RouteSamples \<Rightarrow> RoutingResult" where
  "compareAndRoute tokenIn tokenOut amount s =
     (let rq = getRaydiumQuote tokenIn tokenOut amount (raydiumPriceU s) (raydiumLiqU s);
          mq = getMeteorQuote tokenIn tokenOut amount (meteoraPriceU s) (meteoraLiqU s)
      in routeQuotes amount rq mq)"

text \<open>
  The random inputs of one swap: the slippage sample, the success sample and the
  44 characters returned by \<open>nanoid(44)\<close>.
\<close>

record SwapSamples =
  slippageU :: real
  successU :: real
  nanoid44 :: string

definition executeSwap ::
  "string \<Rightarrow> string \<Rightarrow> real \<Rightarrow> Dex \<Rightarrow> real \<Rightarrow> SwapSamples \<Rightarrow> SwapResult" where
  "executeSwap tokenIn tokenOut amount d quotedPrice s =
     (let slip = - (5 / 1000) + slippageU s * (7 / 1000);
          executed = quotedPrice * (1 + slip);
          tx = take 3 (toLowerCase (dex_name d)) @ nanoid44 s;
          ok = (successU s > 5 / 100)
      in \<lparr>success = ok, txHash = tx, executedPrice = toFixed_num executed 8,
          swapDex = d, slippage = toFixed_num slip 6\<rparr>)"

section \<open>Notions used to state the routing properties\<close>

text \<open>
  The justification string records which branch of \<open>compareAndRoute\<close> decided: the two
  liquidity branches start with \<open>Large order - \<close>, the two best-price branches with
  \<open>Best effective price: \<close>.
\<close>

definition onLiquidityGrounds :: "RoutingResult \<Rightarrow> bool" where
  "onLiquidityGrounds r = prefix ''Large order - '' (reason r)"

definition byBestPrice :: "RoutingResult \<Rightarrow> bool" where
  "byBestPrice r = prefix ''Best effective price: '' (reason r)"

definition selectedQuote :: "RoutingResult \<Rightarrow> DexQuote" where
  "selectedQuote r = (if selectedDex r = Raydium then raydiumQuote r else meteoraQuote r)"

definition otherQuote :: "RoutingResult \<Rightarrow> DexQuote" where
  "otherQuote r = (if selectedDex r = Raydium then meteoraQuote r else raydiumQuote r)"

text \<open>Concrete random samples and inputs, used to run the router on examples.\<close>

definition routeSamples0 :: RouteSamples where
  "routeSamples0 = \<lparr>raydiumPriceU = 1 / 2, raydiumLiqU = 1 / 2, meteoraPriceU = 61 / 100, meteoraLiqU = 0\<rparr>"

definition swapSamples0 :: SwapSamples where
  "swapSamples0 = \<lparr>slippageU = 1 / 2, successU = 1 / 2, nanoid44 = ''V1StGXR8_Z5jdHi6B-myTV1StGXR8_Z5jdHi6B-myTV1''\<rparr>"

section \<open>Status messages and job data (types/order.ts)\<close>

text \<open>
  \<open>OrderStatusType\<close>, the payload \<open>OrderStatusData\<close> (an absent field is \<open>None\<close>), the
  wire message \<open>OrderStatus\<close> and the job payload \<open>OrderJobData\<close>. Field names that occur in
  several interfaces carry a prefix here: \<open>d_dex\<close> is the field \<open>dex\<close> of the payload,
  \<open>msgOrderId\<close>, \<open>msgStatus\<close>, \<open>msgData\<close> are \<open>orderId\<close>, \<open>status\<close>, \<open>data\<close> of the
  message. The message's \<open>timestamp\<close> is the wall-clock time of its creation and is left out.
\<close>

datatype OrderStatusType = pending | routing | building | submitted | confirmed | failed

record OrderStatusData =
  d_dex :: "Dex option"
  d_raydiumPrice :: "real option"
  d_meteoraPrice :: "real option"
  d_txHash :: "string option"
  d_executedPrice :: "real option"
  d_error :: "string option"

record OrderStatus =
  msgOrderId :: string
  msgStatus :: OrderStatusType
  msgData :: "OrderStatusData option"

record OrderJobData =
  orderId :: string
  tokenIn :: string
  tokenOut :: string
  amount :: real

definition emptyData :: OrderStatusData where
  "emptyData = \<lparr>d_dex = None, d_raydiumPrice = None, d_meteoraPrice = None,
                 d_txHash = None, d_executedPrice = None, d_error = None\<rparr>"

section \<open>The WebSocket manager (services/websocket.ts)\<close>

text \<open>
  A socket is identified by a handle. What the manager reads from a socket during a broadcast is
  its \<open>readyState\<close> (1 is \<open>OPEN\<close>) and whether \<open>send\<close> raises; both belong to the
  environment and are given by a function from handles to \<open>Socket\<close>.

  \<open>rooms\<close> is a \<open>Map\<close> from order id to a \<open>Set\<close> of sockets and \<open>allConnections\<close> a
  \<open>Set\<close> of sockets. Both iterate in insertion order: the map is an association list with one
  entry per key, a set a list without repetitions. \<open>set_add\<close> and \<open>set_delete\<close> are
  \<open>Set.add\<close> and \<open>Set.delete\<close>; \<open>AList.update\<close> is \<open>Map.set\<close> (an existing key keeps its
  place) and \<open>AList.delete\<close> is \<open>Map.delete\<close>.
\<close>

type_synonym ws = nat

record Socket =
  readyState :: nat
  sendThrows :: bool

record WebSocketManager =
  rooms :: "(string \<times> ws list) list"
  allConnections :: "ws list"

definition set_add :: "'a \<Rightarrow> 'a list \<Rightarrow> 'a list" where
  "set_add x xs = (if x \<in> set xs then xs else xs @ [x])"

definition set_delete :: "'a \<Rightarrow> 'a list \<Rightarrow> 'a list" where
  "set_delete x xs = removeAll x xs"

definition newManager :: WebSocketManager where
  "newManager = \<lparr>rooms = [], allConnections = []\<rparr>"

text \<open>
  \<open>joinRoom\<close> also registers \<open>close\<close> and \<open>error\<close> handlers on the socket that call
  \<open>leaveRoom\<close> with the same order id and socket; such a call is a later \<open>leaveRoom\<close> step of
  the environment.
\<close>

definition joinRoom :: "string \<Rightarrow> ws \<Rightarrow> WebSocketManager \<Rightarrow> WebSocketManager" where
  "joinRoom oid w m =
     (let rs = (case map_of (rooms m) oid of None \<Rightarrow> AList.update oid [] (rooms m) | Some _ \<Rightarrow> rooms m);
          room = (case map_of rs oid of None \<Rightarrow> [] | Some r \<Rightarrow> r)
      in m\<lparr>rooms := AList.update oid (set_add w room) rs,
            allConnections := set_add w (allConnections m)\<rparr>)"

definition leaveRoom :: "string \<Rightarrow> ws \<Rightarrow> WebSocketManager \<Rightarrow> WebSocketManager" where
  "leaveRoom oid w m =
     (let rs = (case map_of (rooms m) oid of
                  None \<Rightarrow> rooms m
                | Some room \<Rightarrow>
                    (let room' = set_delete w room
                     in if length room' = 0 then AList.delete oid (rooms m)
                        else AList.update oid room' (rooms m)))
      in m\<lparr>rooms := rs, allConnections := set_delete w (allConnections m)\<rparr>)"

text \<open>
  \<open>broadcast\<close> returns at once when the room is missing or empty. Otherwise it visits every
  socket of the room in order: an open socket whose \<open>send\<close> does not raise receives the message;
  any other socket is deleted from the room and from \<open>allConnections\<close> (\<open>dropConnection\<close>).
  The room is the \<open>Set\<close> object stored in the map, so deleting from it changes the map's
  entry; the entry itself is never removed here. Deleting the element being visited does not
  disturb the iteration over the remaining ones. The result is the new manager state and the
  list of deliveries. The message is delivered as it is; its serialisation to JSON is not
  represented.
\<close>

definition dropConnection :: "string \<Rightarrow> ws \<Rightarrow> WebSocketManager \<Rightarrow> WebSocketManager" where
  "dropConnection oid w m =
     (let rs = (case map_of (rooms m) oid of
                  None \<Rightarrow> rooms m
                | Some room \<Rightarrow> AList.update oid (set_delete w room) (rooms m))
      in m\<lparr>rooms := rs, allConnections := set_delete w (allConnections m)\<rparr>)"

definition reachable :: "(ws \<Rightarrow> Socket) \<Rightarrow> ws \<Rightarrow> bool" where
  "reachable socks w = (readyState (socks w) = 1 \<and> \<not> sendThrows (socks w))"

fun broadcastLoop ::
  "(ws \<Rightarrow> Socket) \<Rightarrow> string \<Rightarrow> OrderStatus \<Rightarrow> ws list
     \<Rightarrow> WebSocketManager \<times> (ws \<times> OrderStatus) list \<Rightarrow> WebSocketManager \<times> (ws \<times> OrderStatus) list" where
  "broadcastLoop socks oid message [] st = st"
| "broadcastLoop socks oid message (w # rest) (m, sent) =
     broadcastLoop socks oid message rest
       (if readyState (socks w) = 1
        then (if sendThrows (socks w) then (dropConnection oid w m, sent)
              else (m, sent @ [(w, message)]))
        else (dropConnection oid w m, sent))"

definition broadcast ::
  "string \<Rightarrow> OrderStatus \<Rightarrow> (ws \<Rightarrow> Socket) \<Rightarrow> WebSocketManager
     \<Rightarrow> WebSocketManager \<times> (ws \<times> OrderStatus) list" where
  "broadcast oid message socks m =
     (case map_of (rooms m) oid of
        None \<Rightarrow> (m, [])
      | Some room \<Rightarrow> if length room = 0 then (m, []) else broadcastLoop socks oid message room (m, []))"

definition getRoomCount :: "WebSocketManager \<Rightarrow> nat" where
  "getRoomCount m = length (rooms m)"

definition getConnectionCount :: "WebSocketManager \<Rightarrow> nat" where
  "getConnectionCount m = length (allConnections m)"

definition getRoomClientCount :: "string \<Rightarrow> WebSocketManager \<Rightarrow> nat" where
  "getRoomClientCount oid m = (case map_of (rooms m) oid of None \<Rightarrow> 0 | Some room \<Rightarrow> length room)"

definition createStatusMessage :: "string \<Rightarrow> OrderStatusType \<Rightarrow> OrderStatusData option \<Rightarrow> OrderStatus" where
  "createStatusMessage oid st d = \<lparr>msgOrderId = oid, msgStatus = st, msgData = d\<rparr>"

text \<open>
  \<open>cleanup\<close> closes every tracked socket with code 1000 and clears both collections; the
  second component lists the \<open>close\<close> calls.
\<close>

definition cleanup :: "WebSocketManager \<Rightarrow> WebSocketManager \<times> (ws \<times> nat \<times> string) list" where
  "cleanup m =
     (\<lparr>rooms = [], allConnections = []\<rparr>,
      map (\<lambda>w. (w, 1000, ''Server shutting down'')) (allConnections m))"

text \<open>
  Properties of a manager state: the room map has one entry per order id; every socket of
  every room is in \<open>allConnections\<close>; socket \<open>w\<close> is in no room other than that of \<open>oid\<close>.
  \<open>survives sk xs w\<close> holds when a broadcast loop over the sockets \<open>xs\<close> keeps \<open>w\<close>.
\<close>

definition roomsWellFormed :: "WebSocketManager \<Rightarrow> bool" where
  "roomsWellFormed m = distinct (map fst (rooms m))"

definition roomsWithinConnections :: "WebSocketManager \<Rightarrow> bool" where
  "roomsWithinConnections m = list_all (\<lambda>(oid, room). set room \<subseteq> set (allConnections m)) (rooms m)"

definition inNoOtherRoom :: "string \<Rightarrow> ws \<Rightarrow> WebSocketManager \<Rightarrow> bool" where
  "inNoOtherRoom oid w m = list_all (\<lambda>(oid', room). oid' = oid \<or> w \<notin> set room) (rooms m)"

definition survives :: "(ws \<Rightarrow> Socket) \<Rightarrow> ws list \<Rightarrow> ws \<Rightarrow> bool" where
  "survives sk xs w = (w \<notin> set xs \<or> reachable sk w)"

definition roomOf :: "string \<Rightarrow> WebSocketManager \<Rightarrow> ws list" where
  "roomOf oid m = (case map_of (rooms m) oid of None \<Rightarrow> [] | Some room \<Rightarrow> room)"

text \<open>Concrete sockets and manager states, used to run the manager on examples.\<close>

definition openSocket :: Socket where "openSocket = \<lparr>readyState = 1, sendThrows = False\<rparr>"

definition closingSocket :: Socket where "closingSocket = \<lparr>readyState = 2, sendThrows = False\<rparr>"

definition msg0 :: OrderStatus where "msg0 = createStatusMessage ''order-1'' pending None"

definition oneRoom :: WebSocketManager where
  "oneRoom = joinRoom ''order-1'' 7 newManager"

definition twoRooms :: WebSocketManager where
  "twoRooms = joinRoom ''order-2'' 7 (joinRoom ''order-1'' 7 newManager)"

definition emptyRoom :: WebSocketManager where
  "emptyRoom = \<lparr>rooms = [(''order-1'', [])], allConnections = []\<rparr>"

section \<open>The order worker (workers/orderWorker.ts)\<close>

text \<open>
  A value raised by the program is an \<open>Error\<close> object with its message, or something else
  (the handler tests \<open>error instanceof Error\<close>).

  \<open>DbOrder\<close> holds the columns of an order row that the worker writes (\<open>status\<close>, \<open>dex\<close>,
  \<open>txHash\<close>, \<open>price\<close>, \<open>error\<close>); the other columns are set when the order is created and
  never change. \<open>UpdateData\<close> is the optional \<open>data\<close> argument of \<open>updateOrderStatus\<close>;
  \<open>noData\<close> stands for \<open>undefined\<close>.
\<close>

datatype thrown = JsError string | NonError

record DbOrder =
  rowStatus :: OrderStatusType
  rowDex :: "string option"
  rowTxHash :: "string option"
  rowPrice :: "real option"
  rowError :: "string option"

record UpdateData =
  u_dex :: "string option"
  u_txHash :: "string option"
  u_price :: "real option"
  u_error :: "string option"

definition noData :: UpdateData where
  "noData = \<lparr>u_dex = None, u_txHash = None, u_price = None, u_error = None\<rparr>"

text \<open>
  The worker acts on the order store, on the WebSocket manager and through it on the sockets.
  \<open>World\<close> collects them: the rows of the store by order id; the outcome of the coming store
  calls (\<open>None\<close>: the store is reachable, \<open>Some e\<close>: the call raises \<open>e\<close>; once the list is
  used up the store stays reachable); the manager; the sockets; the messages delivered to
  sockets; and a trace of what the worker did, in order: \<open>Persisted oid row\<close> when the store has
  written \<open>row\<close> for order \<open>oid\<close>, \<open>Broadcast m\<close> when \<open>m\<close> has been handed to the manager.

  \<open>Job\<close> is what the queue passes to the processor: the payload, the number of attempts made
  before this one, and the attempts ceiling of the job options (\<open>None\<close> when unset).
\<close>

datatype event = Persisted string DbOrder | Broadcast OrderStatus

record World =
  store :: "string \<Rightarrow> DbOrder option"
  faults :: "thrown option list"
  wsm :: WebSocketManager
  socks :: "ws \<Rightarrow> Socket"
  delivered :: "(ws \<times> OrderStatus) list"
  trace :: "event list"

record Job =
  jobData :: OrderJobData
  attemptsMade :: nat
  optsAttempts :: "nat option"

text \<open>
  \<open>updateOrderStatus\<close> passes to \<open>prisma.order.update\<close> the status and those fields of
  \<open>data\<close> that are truthy (a non-empty string, a number other than zero); \<open>applyUpdate\<close> is
  the row after this update, the other columns staying as they are. The store is an external
  service: the call raises when the store is unreachable and when no row has the given id.
\<close>

definition truthyString :: "string option \<Rightarrow> string option" where
  "truthyString v = (case v of None \<Rightarrow> None | Some s \<Rightarrow> if s = [] then None else Some s)"

definition truthyNumber :: "real option \<Rightarrow> real option" where
  "truthyNumber v = (case v of None \<Rightarrow> None | Some x \<Rightarrow> if x = 0 then None else Some x)"

definition orElse :: "'a option \<Rightarrow> 'a option \<Rightarrow> 'a option" where
  "orElse new old = (case new of None \<Rightarrow> old | Some v \<Rightarrow> Some v)"

definition applyUpdate :: "OrderStatusType \<Rightarrow> UpdateData \<Rightarrow> DbOrder \<Rightarrow> DbOrder" where
  "applyUpdate st d row =
     \<lparr>rowStatus = st,
      rowDex = orElse (truthyString (u_dex d)) (rowDex row),
      rowTxHash = orElse (truthyString (u_txHash d)) (rowTxHash row),
      rowPrice = orElse (truthyNumber (u_price d)) (rowPrice row),
      rowError = orElse (truthyString (u_error d)) (rowError row)\<rparr>"

definition prismaOrderUpdate ::
  "string \<Rightarrow> OrderStatusType \<Rightarrow> UpdateData \<Rightarrow> World \<Rightarrow> (thrown + unit) \<times> World" where
  "prismaOrderUpdate oid st d w =
     (case faults w of
        Some e # rest \<Rightarrow> (Inl e, w\<lparr>faults := rest\<rparr>)
      | _ \<Rightarrow>
        (let w1 = w\<lparr>faults := tl (faults w)\<rparr>
         in case store w oid of
              None \<Rightarrow> (Inl (JsError ''Record to update not found.''), w1)
            | Some row \<Rightarrow>
                (let row' = applyUpdate st d row
                 in (Inr (), w1\<lparr>store := (store w)(oid \<mapsto> row'),
                                trace := trace w @ [Persisted oid row']\<rparr>))))"

text \<open>
  \<open>updateOrderStatus\<close>: the store update, awaited, then the broadcast. When the update raises,
  the broadcast is not reached.
\<close>

definition updateOrderStatus ::
  "string \<Rightarrow> OrderStatusType \<Rightarrow> UpdateData \<Rightarrow> OrderStatusData option \<Rightarrow> World
     \<Rightarrow> (thrown + unit) \<times> World" where
  "updateOrderStatus oid st d wsData w =
     (case prismaOrderUpdate oid st d w of
        (Inl e, w1) \<Rightarrow> (Inl e, w1)
      | (Inr _, w1) \<Rightarrow>
          (let message = createStatusMessage oid st wsData;
               (m, sent) = broadcast oid message (socks w1) (wsm w1)
           in (Inr (), w1\<lparr>wsm := m, delivered := delivered w1 @ sent,
                          trace := trace w1 @ [Broadcast message]\<rparr>)))"

text \<open>
  \<open>andThen\<close> sequences two steps of the \<open>try\<close> block: a raised value skips what follows.
  \<open>processOrderTry\<close> is the \<open>try\<close> block of \<open>processOrder\<close>, and \<open>processOrder\<close> adds the
  \<open>catch\<close> handler: on the final attempt (\<open>attemptsMade + 1 >= (opts.attempts || 3)\<close>) it
  emits \<open>failed\<close> with the error message, and in all cases raises the error again. A value
  raised by the handler's own \<open>updateOrderStatus\<close> replaces the original one.
\<close>

definition andThen ::
  "(thrown + 'a) \<times> World \<Rightarrow> ('a \<Rightarrow> World \<Rightarrow> (thrown + 'b) \<times> World) \<Rightarrow> (thrown + 'b) \<times> World" where
  "andThen r f = (case r of (Inl e, w) \<Rightarrow> (Inl e, w) | (Inr x, w) \<Rightarrow> f x w)"

definition routedData :: "RoutingResult \<Rightarrow> OrderStatusData" where
  "routedData r =
     emptyData\<lparr>d_dex := Some (selectedDex r),
               d_raydiumPrice := Some (price (raydiumQuote r)),
               d_meteoraPrice := Some (price (meteoraQuote r))\<rparr>"

definition confirmedData :: "RoutingResult \<Rightarrow> SwapResult \<Rightarrow> OrderStatusData" where
  "confirmedData r sr =
     emptyData\<lparr>d_dex := Some (swapDex sr),
               d_txHash := Some (txHash sr),
               d_executedPrice := Some (executedPrice sr),
               d_raydiumPrice := Some (price (raydiumQuote r)),
               d_meteoraPrice := Some (price (meteoraQuote r))\<rparr>"

definition swapFailedError :: thrown where
  "swapFailedError = JsError ''Swap execution failed on the selected DEX''"

definition processOrderTry :: "Job \<Rightarrow> RouteSamples \<Rightarrow> SwapSamples \<Rightarrow> World \<Rightarrow> (thrown + unit) \<times> World" where
  "processOrderTry job rs ss w =
     (let oid = orderId (jobData job); tin = tokenIn (jobData job);
          tout = tokenOut (jobData job); amt = amount (jobData job)
      in andThen (updateOrderStatus oid pending noData None w) (\<lambda>_ w.
         andThen (updateOrderStatus oid routing noData None w) (\<lambda>_ w.
           (let routingResult = compareAndRoute tin tout amt rs
            in andThen (updateOrderStatus oid routing
                          (noData\<lparr>u_dex := Some (dex_name (selectedDex routingResult))\<rparr>)
                          (Some (routedData routingResult)) w) (\<lambda>_ w.
               andThen (updateOrderStatus oid building noData (Some (routedData routingResult)) w) (\<lambda>_ w.
                 (let quotedPrice = (if selectedDex routingResult = Raydium
                                     then price (raydiumQuote routingResult)
                                     else price (meteoraQuote routingResult))
                  in andThen (updateOrderStatus oid submitted noData (Some (routedData routingResult)) w) (\<lambda>_ w.
                       (let swapResult = executeSwap tin tout amt (selectedDex routingResult) quotedPrice ss
                        in if success swapResult
                           then updateOrderStatus oid confirmed
                                  \<lparr>u_dex = Some (dex_name (swapDex swapResult)),
                                   u_txHash = Some (txHash swapResult),
                                   u_price = Some (executedPrice swapResult),
                                   u_error = None\<rparr>
                                  (Some (confirmedData routingResult swapResult)) w
                           else (Inl swapFailedError, w))))))))))"

definition errorMessageOf :: "thrown \<Rightarrow> string" where
  "errorMessageOf e = (case e of JsError m \<Rightarrow> m | NonError \<Rightarrow> ''Unknown error'')"

definition maxAttempts :: "Job \<Rightarrow> nat" where
  "maxAttempts job = (case optsAttempts job of None \<Rightarrow> 3 | Some n \<Rightarrow> if n = 0 then 3 else n)"

definition finalAttempt :: "Job \<Rightarrow> bool" where
  "finalAttempt job = (attemptsMade job + 1 \<ge> maxAttempts job)"

definition processOrder :: "Job \<Rightarrow> RouteSamples \<Rightarrow> SwapSamples \<Rightarrow> World \<Rightarrow> (thrown + unit) \<times> World" where
  "processOrder job rs ss w =
     (case processOrderTry job rs ss w of
        (Inr x, w1) \<Rightarrow> (Inr x, w1)
      | (Inl err, w1) \<Rightarrow>
          (let errorMessage = errorMessageOf err
           in if attemptsMade job + 1 \<ge> maxAttempts job
              then (case updateOrderStatus (orderId (jobData job)) failed
                           (noData\<lparr>u_error := Some errorMessage\<rparr>)
                           (Some (emptyData\<lparr>d_error := Some errorMessage\<rparr>)) w1 of
                      (Inl e2, w2) \<Rightarrow> (Inl e2, w2)
                    | (Inr _, w2) \<Rightarrow> (Inl err, w2))
              else (Inl err, w1)))"

text \<open>Concrete jobs and worlds, used to run the worker on examples.\<close>

definition row0 :: DbOrder where
  "row0 = \<lparr>rowStatus = pending, rowDex = None, rowTxHash = None, rowPrice = None, rowError = None\<rparr>"

definition world0 :: World where
  "world0 = \<lparr>store = [''order-1'' \<mapsto> row0], faults = [], wsm = joinRoom ''order-1'' 7 newManager,
             socks = (\<lambda>w. openSocket), delivered = [], trace = []\<rparr>"

definition job0 :: Job where
  "job0 = \<lparr>jobData = \<lparr>orderId = ''order-1'', tokenIn = SOL, tokenOut = USDC, amount = 3 / 2\<rparr>,
           attemptsMade = 0, optsAttempts = Some 3\<rparr>"

definition jobFinal :: Job where
  "jobFinal = job0\<lparr>attemptsMade := 2\<rparr>"

definition worldFaulty :: World where
  "worldFaulty = world0\<lparr>faults := [None, None, None, Some (JsError ''connection lost'')]\<rparr>"

definition worldDown :: World where
  "worldDown = world0\<lparr>faults := [Some (JsError ''connection lost''), Some (JsError ''connection lost'')]\<rparr>"

section \<open>Notions used to state the worker properties\<close>

text \<open>
  \<open>accepted oid w\<close>: the next store update for order \<open>oid\<close> succeeds in world \<open>w\<close> (the store
  is reachable and the row exists); \<open>rejection oid w\<close> is the value it raises otherwise, and
  \<open>storedRow\<close> the row it writes. \<open>noStoreFault oid w\<close>: the row exists and none of the next six
  store calls, the most one attempt makes without a store fault, raises.
\<close>

definition nextFault :: "thrown option list \<Rightarrow> thrown option" where
  "nextFault fs = (case fs of Some e # _ \<Rightarrow> Some e | _ \<Rightarrow> None)"

definition accepted :: "string \<Rightarrow> World \<Rightarrow> bool" where
  "accepted oid w = (nextFault (faults w) = None \<and> store w oid \<noteq> None)"

definition rejection :: "string \<Rightarrow> World \<Rightarrow> thrown" where
  "rejection oid w = (case nextFault (faults w) of Some e \<Rightarrow> e | None \<Rightarrow> JsError ''Record to update not found.'')"

definition storedRow :: "string \<Rightarrow> OrderStatusType \<Rightarrow> UpdateData \<Rightarrow> World \<Rightarrow> DbOrder" where
  "storedRow oid st d w = applyUpdate st d (the (store w oid))"

text \<open>
  \<open>attemptTrace\<close> is the trace of one attempt (one call of \<open>processOrder\<close>) and
  \<open>attemptMessages\<close> the status messages it hands to the manager, in order.
\<close>

fun broadcasts :: "event list \<Rightarrow> OrderStatus list" where
  "broadcasts [] = []"
| "broadcasts (Persisted oid row # es) = broadcasts es"
| "broadcasts (Broadcast m # es) = m # broadcasts es"

definition attemptTrace :: "Job \<Rightarrow> RouteSamples \<Rightarrow> SwapSamples \<Rightarrow> World \<Rightarrow> event list" where
  "attemptTrace job rs ss w = trace (snd (processOrder job rs ss (w\<lparr>trace := []\<rparr>)))"

definition attemptMessages :: "Job \<Rightarrow> RouteSamples \<Rightarrow> SwapSamples \<Rightarrow> World \<Rightarrow> OrderStatus list" where
  "attemptMessages job rs ss w = broadcasts (attemptTrace job rs ss w)"

definition failedMessage :: "string \<Rightarrow> string \<Rightarrow> OrderStatus" where
  "failedMessage oid text = createStatusMessage oid failed (Some (emptyData\<lparr>d_error := Some text\<rparr>))"

definition noStoreFault :: "string \<Rightarrow> World \<Rightarrow> bool" where
  "noStoreFault oid w = (store w oid \<noteq> None \<and> list_all (\<lambda>f. f = None) (take 6 (faults w)))"

text \<open>
  The world after an accepted emission.
\<close>

definition committed ::
  "string \<Rightarrow> OrderStatusType \<Rightarrow> UpdateData \<Rightarrow> OrderStatusData option \<Rightarrow> World \<Rightarrow> World" where
  "committed oid st d wd w =
     w\<lparr>faults := tl (faults w), store := (store w)(oid \<mapsto> storedRow oid st d w),
       wsm := fst (broadcast oid (createStatusMessage oid st wd) (socks w) (wsm w)),
       delivered := delivered w @ snd (broadcast oid (createStatusMessage oid st wd) (socks w) (wsm w)),
       trace := trace w @ [Persisted oid (storedRow oid st d w), Broadcast (createStatusMessage oid st wd)]\<rparr>"

text \<open>
  \<open>rowCovers row m\<close>: the stored row agrees with the message on every payload field that has a
  column and is truthy: venue, transaction reference, executed price and error text. The quote
  prices of a payload have no column. \<open>persistedFirst t\<close>: in the trace \<open>t\<close>, every broadcast comes
  directly after a store write for the same order id with the same status, whose row covers the
  message.
\<close>

definition rowCovers :: "DbOrder \<Rightarrow> OrderStatus \<Rightarrow> bool" where
  "rowCovers row m =
     (case msgData m of
        None \<Rightarrow> True
      | Some d \<Rightarrow>
          (case d_dex d of None \<Rightarrow> True | Some x \<Rightarrow> rowDex row = Some (dex_name x)) \<and>
          (case truthyString (d_txHash d) of None \<Rightarrow> True | Some t \<Rightarrow> rowTxHash row = Some t) \<and>
          (case truthyNumber (d_executedPrice d) of None \<Rightarrow> True | Some p \<Rightarrow> rowPrice row = Some p) \<and>
          (case truthyString (d_error d) of None \<Rightarrow> True | Some e \<Rightarrow> rowError row = Some e))"

fun persistedFirst :: "event list \<Rightarrow> bool" where
  "persistedFirst [] = True"
| "persistedFirst (Broadcast m # es) = False"
| "persistedFirst [Persisted oid row] = True"
| "persistedFirst (Persisted oid row # Persisted oid' row' # es) = persistedFirst (Persisted oid' row' # es)"
| "persistedFirst (Persisted oid row # Broadcast m # es) =
     (msgOrderId m = oid \<and> msgStatus m = rowStatus row \<and> rowCovers row m \<and> persistedFirst es)"

text \<open>
  A step is one call of \<open>updateOrderStatus\<close>: status, store data and payload. \<open>emitSteps\<close> runs
  a list of steps until one raises. \<open>routingSteps\<close>, \<open>confirmedStep\<close> and \<open>failedStep\<close> are the
  steps of \<open>processOrder\<close>, in the order of the source.
\<close>

type_synonym step = "OrderStatusType \<times> UpdateData \<times> OrderStatusData option"

fun emitSteps :: "string \<Rightarrow> step list \<Rightarrow> World \<Rightarrow> (thrown + unit) \<times> World" where
  "emitSteps oid [] w = (Inr (), w)"
| "emitSteps oid ((st, d, wd) # rest) w =
     andThen (updateOrderStatus oid st d wd w) (\<lambda>_ w'. emitSteps oid rest w')"

definition routingSteps :: "RoutingResult \<Rightarrow> step list" where
  "routingSteps r =
     [(pending, noData, None),
      (routing, noData, None),
      (routing, noData\<lparr>u_dex := Some (dex_name (selectedDex r))\<rparr>, Some (routedData r)),
      (building, noData, Some (routedData r)),
      (submitted, noData, Some (routedData r))]"

definition confirmedStep :: "RoutingResult \<Rightarrow> SwapResult \<Rightarrow> step" where
  "confirmedStep r sr =
     (confirmed,
      \<lparr>u_dex = Some (dex_name (swapDex sr)), u_txHash = Some (txHash sr),
       u_price = Some (executedPrice sr), u_error = None\<rparr>,
      Some (confirmedData r sr))"

definition stepMessage :: "string \<Rightarrow> step \<Rightarrow> OrderStatus" where
  "stepMessage oid s = (case s of (st, d, wd) \<Rightarrow> createStatusMessage oid st wd)"

definition quotedPriceOf :: "RoutingResult \<Rightarrow> real" where
  "quotedPriceOf r = (if selectedDex r = Raydium then price (raydiumQuote r) else price (meteoraQuote r))"

text \<open>
  \<open>stepsCovered oid row steps\<close>: starting from \<open>row\<close>, each step writes a row that covers its
  message. \<open>failedEvents\<close> selects the store writes and broadcasts with status \<open>failed\<close>.
\<close>

fun stepsCovered :: "string \<Rightarrow> DbOrder \<Rightarrow> step list \<Rightarrow> bool" where
  "stepsCovered oid row [] = True"
| "stepsCovered oid row ((st, d, wd) # rest) =
     (rowCovers (applyUpdate st d row) (createStatusMessage oid st wd) \<and>
      stepsCovered oid (applyUpdate st d row) rest)"

fun isFailedEvent :: "event \<Rightarrow> bool" where
  "isFailedEvent (Persisted oid row) = (rowStatus row = failed)"
| "isFailedEvent (Broadcast m) = (msgStatus m = failed)"

definition failedEvents :: "event list \<Rightarrow> event list" where
  "failedEvents es = filter isFailedEvent es"

definition failedStep :: "string \<Rightarrow> step" where
  "failedStep text = (failed, noData\<lparr>u_error := Some text\<rparr>, Some (emptyData\<lparr>d_error := Some text\<rparr>))"

section \<open>Rounding to a fixed number of decimals\<close>

lemma toFixed_scaled_err:
  assumes "0 \<le> x"
  shows "\<bar>real (toFixed_scaled f x) / 10 ^ f - x\<bar> \<le> 1 / (2 * 10 ^ f)"
proof -
  let ?y = "x * 10 ^ f + 1 / 2"
  have y0: "0 \<le> ?y" using assms by simp
  then have fl0: "0 \<le> \<lfloor>?y\<rfloor>" by simp
  have n: "real (toFixed_scaled f x) = of_int \<lfloor>?y\<rfloor>"
    unfolding toFixed_scaled_def using fl0 by simp
  have lo: "of_int \<lfloor>?y\<rfloor> \<le> ?y" by (rule of_int_floor_le)
  have hi: "?y < of_int \<lfloor>?y\<rfloor> + 1" by linarith
  have p: "(0::real) < 10 ^ f" by simp
  have a: "\<bar>of_int \<lfloor>?y\<rfloor> - x * 10 ^ f\<bar> \<le> 1 / 2" using lo hi by linarith
  have "\<bar>of_int \<lfloor>?y\<rfloor> / 10 ^ f - x\<bar> = \<bar>(of_int \<lfloor>?y\<rfloor> - x * 10 ^ f) / 10 ^ f\<bar>"
    using p by (simp add: field_simps)
  also have "\<dots> = \<bar>of_int \<lfloor>?y\<rfloor> - x * 10 ^ f\<bar> / 10 ^ f"
    using p by (simp add: abs_divide)
  also have "\<dots> \<le> (1 / 2) / 10 ^ f"
    using a p by (rule_tac divide_right_mono) simp_all
  finally show ?thesis using n by simp
qed


lemma toFixed_num_err: "\<bar>toFixed_num x f - x\<bar> \<le> 1 / (2 * 10 ^ f)"
proof (cases "10 ^ 21 \<le> \<bar>x\<bar>")
  case True then show ?thesis by (simp add: toFixed_num_def)
next
  case False
  show ?thesis
  proof (cases "x < 0")
    case True
    then have "\<bar>real (toFixed_scaled f (- x)) / 10 ^ f - (- x)\<bar> \<le> 1 / (2 * 10 ^ f)"
      by (intro toFixed_scaled_err) simp
    then show ?thesis using True False by (simp add: toFixed_num_def abs_if split: if_splits)
  next
    case f: False
    then have "\<bar>real (toFixed_scaled f x) / 10 ^ f - x\<bar> \<le> 1 / (2 * 10 ^ f)"
      by (intro toFixed_scaled_err) simp
    then show ?thesis using f False by (simp add: toFixed_num_def)
  qed
qed

lemma toFixed_scaled_pos:
  assumes "1 / (2 * 10 ^ f) \<le> x"
  shows "1 / 10 ^ f \<le> real (toFixed_scaled f x) / 10 ^ f"
proof -
  have p: "(0::real) < 10 ^ f" by simp
  have "1 / 2 \<le> x * 10 ^ f" using assms p by (simp add: field_simps)
  then have "1 \<le> \<lfloor>x * 10 ^ f + 1 / 2\<rfloor>" by linarith
  then have "1 \<le> toFixed_scaled f x" unfolding toFixed_scaled_def by linarith
  then have "1 \<le> real (toFixed_scaled f x)" by simp
  then show ?thesis using p by (simp add: divide_right_mono)
qed

lemma toFixed_num_pos:
  assumes "1 / (2 * 10 ^ f) \<le> x"
  shows "1 / 10 ^ f \<le> toFixed_num x f"
proof -
  have x0: "0 < x" using assms by (smt (verit) divide_pos_pos zero_less_power zero_less_numeral mult_pos_pos zero_less_one)
  show ?thesis
  proof (cases "10 ^ 21 \<le> \<bar>x\<bar>")
    case True
    have a: "(1::real) / 10 ^ f \<le> 1" by (simp add: divide_le_eq_1)
    have b: "(1::real) \<le> x" using True x0 by simp
    have "toFixed_num x f = x" using True by (simp add: toFixed_num_def)
    then show ?thesis using a b by linarith
  next
    case False
    then show ?thesis using x0 toFixed_scaled_pos [OF assms] by (simp add: toFixed_num_def)
  qed
qed


lemma toFixed_num_bounds:
  assumes "1 / (2 * 10 ^ f) \<le> x" and "x \<le> hi"
  shows "1 / 10 ^ f \<le> toFixed_num x f \<and> toFixed_num x f \<le> hi + 1 / (2 * 10 ^ f)"
proof -
  have "\<bar>toFixed_num x f - x\<bar> \<le> 1 / (2 * 10 ^ f)" by (rule toFixed_num_err)
  then have "toFixed_num x f \<le> hi + 1 / (2 * 10 ^ f)" using assms(2) by linarith
  then show ?thesis using toFixed_num_pos [OF assms(1)] by simp
qed

section \<open>Quotes are positive and bounded\<close>

lemma base_rate_bounds:
  "1 / 10 ^ 7 \<le> getBaseExchangeRate a b \<and> getBaseExchangeRate a b \<le> 10 ^ 7"
  by (simp add: getBaseExchangeRate_def BASE_PRICES_def or_default_def)

lemma getVariedPrice_bounds:
  assumes u: "unit_sample u" and b: "lo \<le> base" "base \<le> hi" "0 < lo" and m: "0 < mn" "mn \<le> mx"
  shows "lo * mn \<le> getVariedPrice base mn mx u \<and> getVariedPrice base mn mx u \<le> hi * mx"
proof -
  define var where "var = mn + u * (mx - mn)"
  have u': "0 \<le> u" "u \<le> 1" using u by (simp_all add: unit_sample_def)
  have "0 \<le> u * (mx - mn)" using u' m by simp
  then have v1: "mn \<le> var" by (simp add: var_def)
  have "u * (mx - mn) \<le> 1 * (mx - mn)" using u' m by (intro mult_right_mono) simp_all
  then have v2: "var \<le> mx" by (simp add: var_def)
  have "lo * mn \<le> base * var" using b m v1 by (intro mult_mono) simp_all
  moreover have "base * var \<le> hi * mx" using b m v1 v2 by (intro mult_mono) simp_all
  ultimately show ?thesis by (simp add: getVariedPrice_def var_def)
qed

lemma raydium_price_bounds:
  assumes "unit_sample u"
  shows "1 / 10 ^ 8 \<le> price (getRaydiumQuote a b amt u v) \<and> price (getRaydiumQuote a b amt u v) \<le> 2 * 10 ^ 7"
proof -
  define p where "p = getVariedPrice (getBaseExchangeRate a b) (98 / 100) (102 / 100) u"
  have "1 / 10 ^ 7 * (98 / 100) \<le> p \<and> p \<le> 10 ^ 7 * (102 / 100)"
    unfolding p_def using assms base_rate_bounds [of a b]
    by (intro getVariedPrice_bounds) simp_all
  then have "1 / (2 * 10 ^ 8) \<le> p" "p \<le> 10 ^ 7 * (102 / 100)" by simp_all
  then have "1 / 10 ^ 8 \<le> toFixed_num p 8 \<and> toFixed_num p 8 \<le> 10 ^ 7 * (102 / 100) + 1 / (2 * 10 ^ 8)"
    by (rule toFixed_num_bounds)
  then have "1 / 10 ^ 8 \<le> toFixed_num p 8 \<and> toFixed_num p 8 \<le> 2 * 10 ^ 7" by simp
  then show ?thesis by (simp add: getRaydiumQuote_def Let_def p_def)
qed

lemma meteora_price_bounds:
  assumes "unit_sample u"
  shows "1 / 10 ^ 8 \<le> price (getMeteorQuote a b amt u v) \<and> price (getMeteorQuote a b amt u v) \<le> 2 * 10 ^ 7"
proof -
  define p where "p = getVariedPrice (getBaseExchangeRate a b) (97 / 100) (102 / 100) u"
  have "1 / 10 ^ 7 * (97 / 100) \<le> p \<and> p \<le> 10 ^ 7 * (102 / 100)"
    unfolding p_def using assms base_rate_bounds [of a b]
    by (intro getVariedPrice_bounds) simp_all
  then have "1 / (2 * 10 ^ 8) \<le> p" "p \<le> 10 ^ 7 * (102 / 100)" by simp_all
  then have "1 / 10 ^ 8 \<le> toFixed_num p 8 \<and> toFixed_num p 8 \<le> 10 ^ 7 * (102 / 100) + 1 / (2 * 10 ^ 8)"
    by (rule toFixed_num_bounds)
  then have "1 / 10 ^ 8 \<le> toFixed_num p 8 \<and> toFixed_num p 8 \<le> 2 * 10 ^ 7" by simp
  then show ?thesis by (simp add: getMeteorQuote_def Let_def p_def)
qed

section \<open>Evaluating the router on examples\<close>

lemmas eval_defs = compareAndRoute_def getRaydiumQuote_def getMeteorQuote_def getVariedPrice_def
  getBaseExchangeRate_def BASE_PRICES_def or_default_def SOL_def USDC_def BONK_def RAY_def
  toFixed_num_def toFixed_scaled_def routeQuotes_def priceDiffPercent_def lessThanOne_def
  liquidityReason_def bestPriceReason_def toFixed_def nat_digits.simps digit_char_def Let_def

lemma route_large_example: "compareAndRoute SOL USDC 150 routeSamples0 =
  \<lparr>selectedDex = Raydium,
   raydiumQuote = \<lparr>dex = Raydium, price = 100, fee = 3 / 1000, liquidityScore = 9 / 10\<rparr>,
   meteoraQuote = \<lparr>dex = Meteora, price = 10005 / 100, fee = 2 / 1000, liquidityScore = 65 / 100\<rparr>,
   reason = ''Large order - Raydium has better liquidity (90.0% vs 65.0%) with similar price''\<rparr>"
  by (simp add: eval_defs routeSamples0_def)

lemma route_small_example: "compareAndRoute SOL USDC (3 / 2) routeSamples0 =
  \<lparr>selectedDex = Meteora,
   raydiumQuote = \<lparr>dex = Raydium, price = 100, fee = 3 / 1000, liquidityScore = 9 / 10\<rparr>,
   meteoraQuote = \<lparr>dex = Meteora, price = 10005 / 100, fee = 2 / 1000, liquidityScore = 65 / 100\<rparr>,
   reason = ''Best effective price: Meteora (99.849900)''\<rparr>"
  by (simp add: eval_defs routeSamples0_def)

section \<open>The routing decision\<close>

lemma lessThanOne_pdp:
  assumes "0 < r" "0 < m"
  shows "lessThanOne (priceDiffPercent r m) = (\<bar>r - m\<bar> < max r m / 100)"
proof -
  define M where "M = max r m"
  define d where "d = \<bar>r - m\<bar>"
  have M: "0 < M" using assms by (simp add: M_def)
  have "lessThanOne (priceDiffPercent r m) = (d / M * 100 < 1)"
    using M unfolding lessThanOne_def priceDiffPercent_def M_def [symmetric] d_def [symmetric]
    by simp
  also have "\<dots> = (d < M / 100)"
    using M by (simp add: field_simps)
  finally show ?thesis by (simp only: M_def d_def)
qed

lemma routeQuotes_quotes [simp]:
  "raydiumQuote (routeQuotes amt rq mq) = rq" "meteoraQuote (routeQuotes amt rq mq) = mq"
  by (simp_all add: routeQuotes_def Let_def)

lemma routeQuotes_select:
  assumes "0 < effectivePrice rq" "0 < effectivePrice mq"
    and "similar = (\<bar>effectivePrice rq - effectivePrice mq\<bar> < max (effectivePrice rq) (effectivePrice mq) / 100)"
    and "best = (if effectivePrice rq \<ge> effectivePrice mq then Raydium else Meteora)"
  shows "selectedDex (routeQuotes amt rq mq) =
     (if amt > 100 \<and> similar \<and> liquidityScore rq > 8 / 10 \<and> liquidityScore rq > liquidityScore mq
      then Raydium
      else if amt > 100 \<and> similar \<and> liquidityScore mq > 8 / 10 \<and> liquidityScore mq > liquidityScore rq
      then Meteora else best)"
    and "reason (routeQuotes amt rq mq) =
     (if amt > 100 \<and> similar \<and> liquidityScore rq > 8 / 10 \<and> liquidityScore rq > liquidityScore mq
      then liquidityReason Raydium (liquidityScore rq) (liquidityScore mq)
      else if amt > 100 \<and> similar \<and> liquidityScore mq > 8 / 10 \<and> liquidityScore mq > liquidityScore rq
      then liquidityReason Meteora (liquidityScore mq) (liquidityScore rq)
      else bestPriceReason best (effectivePrice rq) (effectivePrice mq))"
proof -
  have l: "lessThanOne (priceDiffPercent (price rq * (1 - fee rq)) (price mq * (1 - fee mq))) = similar"
    using assms(1-3) lessThanOne_pdp [of "effectivePrice rq" "effectivePrice mq"]
    by (simp add: effectivePrice_def)
  show "selectedDex (routeQuotes amt rq mq) =
     (if amt > 100 \<and> similar \<and> liquidityScore rq > 8 / 10 \<and> liquidityScore rq > liquidityScore mq
      then Raydium
      else if amt > 100 \<and> similar \<and> liquidityScore mq > 8 / 10 \<and> liquidityScore mq > liquidityScore rq
      then Meteora else best)"
    unfolding routeQuotes_def Let_def l assms(4) effectivePrice_def by simp
  show "reason (routeQuotes amt rq mq) =
     (if amt > 100 \<and> similar \<and> liquidityScore rq > 8 / 10 \<and> liquidityScore rq > liquidityScore mq
      then liquidityReason Raydium (liquidityScore rq) (liquidityScore mq)
      else if amt > 100 \<and> similar \<and> liquidityScore mq > 8 / 10 \<and> liquidityScore mq > liquidityScore rq
      then liquidityReason Meteora (liquidityScore mq) (liquidityScore rq)
      else bestPriceReason best (effectivePrice rq) (effectivePrice mq))"
    unfolding routeQuotes_def Let_def l assms(4) effectivePrice_def by simp
qed

lemma liquidityReason_prefix [simp]:
  "prefix ''Large order - '' (liquidityReason d a b)" "\<not> prefix ''Best effective price: '' (liquidityReason d a b)"
  by (simp_all add: liquidityReason_def)

lemma bestPriceReason_prefix [simp]:
  "\<not> prefix ''Large order - '' (bestPriceReason d a b)" "prefix ''Best effective price: '' (bestPriceReason d a b)"
  by (simp_all add: bestPriceReason_def)

lemma compareAndRoute_quotes:
  "raydiumQuote (compareAndRoute tin tout amt s) =
     getRaydiumQuote tin tout amt (raydiumPriceU s) (raydiumLiqU s)"
  "meteoraQuote (compareAndRoute tin tout amt s) =
     getMeteorQuote tin tout amt (meteoraPriceU s) (meteoraLiqU s)"
  by (simp_all add: compareAndRoute_def Let_def)

lemma compareAndRoute_effective_pos:
  assumes "route_samples_ok s" and "r = compareAndRoute tin tout amt s"
  shows "0 < effectivePrice (raydiumQuote r) \<and> 0 < effectivePrice (meteoraQuote r)"
proof -
  have u: "unit_sample (raydiumPriceU s)" "unit_sample (meteoraPriceU s)"
    using assms(1) by (simp_all add: route_samples_ok_def)
  define rq where "rq = getRaydiumQuote tin tout amt (raydiumPriceU s) (raydiumLiqU s)"
  define mq where "mq = getMeteorQuote tin tout amt (meteoraPriceU s) (meteoraLiqU s)"
  have r: "raydiumQuote r = rq" "meteoraQuote r = mq"
    by (simp_all add: assms(2) compareAndRoute_quotes rq_def mq_def)
  have small: "(0::real) < 1 / 10 ^ 8" by simp
  have "1 / 10 ^ 8 \<le> price rq"
    using raydium_price_bounds [OF u(1), of tin tout amt "raydiumLiqU s"]
    unfolding rq_def by (rule conjunct1)
  then have p1: "0 < price rq" using small by linarith
  have f1: "fee rq = 3 / 1000" by (simp add: rq_def getRaydiumQuote_def Let_def)
  have "1 / 10 ^ 8 \<le> price mq"
    using meteora_price_bounds [OF u(2), of tin tout amt "meteoraLiqU s"]
    unfolding mq_def by (rule conjunct1)
  then have p2: "0 < price mq" using small by linarith
  have f2: "fee mq = 2 / 1000" by (simp add: mq_def getMeteorQuote_def Let_def)
  show ?thesis using p1 p2 by (simp add: r effectivePrice_def f1 f2)
qed

section \<open>Claims about the router\<close>



lemma selected_other_eff:
  "selectedDex r = Raydium \<Longrightarrow> effectivePrice (selectedQuote r) = effectivePrice (raydiumQuote r) \<and> effectivePrice (otherQuote r) = effectivePrice (meteoraQuote r)"
  "selectedDex r = Meteora \<Longrightarrow> effectivePrice (selectedQuote r) = effectivePrice (meteoraQuote r) \<and> effectivePrice (otherQuote r) = effectivePrice (raydiumQuote r)"
  by (simp_all add: selectedQuote_def otherQuote_def)

lemma similar_within:
  fixes a b :: real
  assumes "0 < a" "0 < b" "\<bar>a - b\<bar> < max a b / 100"
  shows "99 / 100 * b \<le> a"
  using assms by (simp add: max_def abs_if split: if_splits)








section \<open>The WebSocket manager: broadcast\<close>


lemmas fanout_defs = joinRoom_def leaveRoom_def broadcast_def dropConnection_def newManager_def
  set_add_def set_delete_def getRoomCount_def closingSocket_def openSocket_def Let_def

lemma set_update_subset: "set (AList.update k v al) \<subseteq> insert (k, v) (set al)"
  by (induction al) auto

lemma set_update_distinct:
  "distinct (map fst al) \<Longrightarrow> set (AList.update k v al) = insert (k, v) {p \<in> set al. fst p \<noteq> k}"
  by (induction al) (auto simp: image_iff)

lemma in_update_cases:
  assumes "(k', v') \<in> set (AList.update k v al)"
  shows "(k' = k \<and> v' = v) \<or> (k', v') \<in> set al"
  using assms set_update_subset [of k v al] by blast

lemma in_update_distinct:
  assumes "distinct (map fst al)" and "(k', v') \<in> set (AList.update k v al)"
  shows "(k' = k \<and> v' = v) \<or> (k' \<noteq> k \<and> (k', v') \<in> set al)"
  using assms(2) unfolding set_update_distinct [OF assms(1)] by auto

lemma set_delete_eq: "set (AList.delete k al) = {p \<in> set al. fst p \<noteq> k}"
  by (auto simp: AList.delete_eq)

lemma roomsWithinConnections_iff:
  "roomsWithinConnections m \<longleftrightarrow> (\<forall>(oid, room) \<in> set (rooms m). set room \<subseteq> set (allConnections m))"
  by (simp add: roomsWithinConnections_def list_all_iff)

lemma inNoOtherRoom_iff:
  "inNoOtherRoom oid w m \<longleftrightarrow> (\<forall>(oid', room) \<in> set (rooms m). oid' = oid \<or> w \<notin> set room)"
  by (simp add: inNoOtherRoom_def list_all_iff)

lemma survives_Nil: "filter (survives sk []) ys = ys"
  by (simp add: survives_def)

lemma survives_reachable: "reachable sk w \<Longrightarrow> survives sk (w # xs) = survives sk xs"
  by (auto simp: survives_def fun_eq_iff)

lemma survives_unreachable:
  "\<not> reachable sk w \<Longrightarrow> filter (survives sk xs) (removeAll w ys) = filter (survives sk (w # xs)) ys"
  by (induction ys) (auto simp: survives_def)

lemma survives_self: "filter (survives sk xs) xs = filter (reachable sk) xs"
  by (rule filter_cong) (auto simp: survives_def)

lemma broadcastLoop_result:
  assumes "map_of (rooms m) oid = Some room"
  shows "broadcastLoop sk oid message xs (m, sent) =
     (m\<lparr>rooms := AList.update oid (filter (survives sk xs) room) (rooms m),
        allConnections := filter (survives sk xs) (allConnections m)\<rparr>,
      sent @ map (\<lambda>w. (w, message)) (filter (reachable sk) xs))"
  using assms
proof (induction xs arbitrary: m sent room)
  case Nil
  then show ?case by (simp add: AList.update_triv survives_Nil)
next
  case (Cons w xs)
  show ?case
  proof (cases "reachable sk w")
    case True
    have "broadcastLoop sk oid message (w # xs) (m, sent) =
            broadcastLoop sk oid message xs (m, sent @ [(w, message)])"
      using True by (simp add: reachable_def)
    then show ?thesis
      unfolding survives_reachable [OF True]
      using Cons.IH [OF Cons.prems, of "sent @ [(w, message)]"] True by simp
  next
    case False
    define m1 where "m1 = dropConnection oid w m"
    have step: "broadcastLoop sk oid message (w # xs) (m, sent) =
            broadcastLoop sk oid message xs (m1, sent)"
      using False by (auto simp: reachable_def m1_def)
    have m1: "rooms m1 = AList.update oid (removeAll w room) (rooms m)"
      "allConnections m1 = removeAll w (allConnections m)"
      "map_of (rooms m1) oid = Some (removeAll w room)"
      by (simp_all add: m1_def dropConnection_def set_delete_def Cons.prems AList.update_conv')
    have eq: "m1\<lparr>rooms := rs, allConnections := cs\<rparr> = m\<lparr>rooms := rs, allConnections := cs\<rparr>" for rs cs
      by (simp add: m1_def dropConnection_def)
    show ?thesis
      unfolding step Cons.IH [OF m1(3), of sent] m1(1,2) survives_unreachable [OF False]
        AList.update_last eq
      using False by simp
  qed
qed

lemma broadcast_result:
  assumes "map_of (rooms m) oid = Some room" and "room \<noteq> []"
  shows "broadcast oid message sk m =
     (m\<lparr>rooms := AList.update oid (filter (reachable sk) room) (rooms m),
        allConnections := filter (survives sk room) (allConnections m)\<rparr>,
      map (\<lambda>w. (w, message)) (filter (reachable sk) room))"
  using assms
  by (simp add: broadcast_def broadcastLoop_result [OF assms(1)] survives_self)

lemma broadcast_drops_unreachable:
  assumes "map_of (rooms m) oid = Some room" and "w \<in> set room" and "\<not> reachable sk w"
  shows "w \<notin> set (roomOf oid (fst (broadcast oid message sk m)))
       \<and> w \<notin> set (allConnections (fst (broadcast oid message sk m)))
       \<and> map_of (rooms (fst (broadcast oid message sk m))) oid = Some (filter (reachable sk) room)"
proof -
  have ne: "room \<noteq> []" using assms(2) by auto
  show ?thesis
    unfolding broadcast_result [OF assms(1) ne]
    using assms(2,3) by (simp add: roomOf_def AList.update_conv' survives_def)
qed

section \<open>Claims about the WebSocket manager\<close>


text \<open>
  Claim C9. A broadcast to an order id without subscribers, whether its room is missing or
  empty, changes nothing: it returns the manager unchanged and delivers no message, so the
  number of rooms stays what it was (0 when there is no room). \<open>broadcast\<close> has no way to raise:
  a raising \<open>send\<close> is caught inside the loop.
\<close>

theorem broadcast_without_subscribers:
  assumes "map_of (rooms m) oid = None \<or> map_of (rooms m) oid = Some []"
  shows "broadcast oid message sk m = (m, [])
       \<and> getRoomCount (fst (broadcast oid message sk m)) = getRoomCount m"
  using assms by (auto simp: broadcast_def)

theorem broadcast_without_subscribers_witness:
  "map_of (rooms newManager) ''order-1'' = None
   \<and> broadcast ''order-1'' msg0 (\<lambda>w. openSocket) newManager = (newManager, [])
   \<and> getRoomCount (fst (broadcast ''order-1'' msg0 (\<lambda>w. openSocket) newManager)) = 0
   \<and> map_of (rooms emptyRoom) ''order-1'' = Some []
   \<and> broadcast ''order-1'' msg0 (\<lambda>w. openSocket) emptyRoom = (emptyRoom, [])"
proof -
  have a: "map_of (rooms newManager) ''order-1'' = None \<or> map_of (rooms newManager) ''order-1'' = Some []"
    by (simp add: newManager_def)
  have b: "map_of (rooms emptyRoom) ''order-1'' = None \<or> map_of (rooms emptyRoom) ''order-1'' = Some []"
    by (simp add: emptyRoom_def)
  show ?thesis
    using broadcast_without_subscribers [OF a, of msg0 "\<lambda>w. openSocket"]
      broadcast_without_subscribers [OF b, of msg0 "\<lambda>w. openSocket"]
    by (simp add: newManager_def emptyRoom_def getRoomCount_def)
qed

text \<open>
  Claim C6 at a concrete input. The room of \<open>order-1\<close> holds one socket, which is closing
  (\<open>readyState\<close> 2). The broadcast deletes the socket from the room and from
  \<open>allConnections\<close>, as the claim says, but the room's entry stays in the room map, empty, and
  \<open>getRoomCount\<close> still counts it. \<open>leaveRoom\<close> on the same state removes the entry.
\<close>

theorem broadcast_keeps_empty_room:
  "broadcast ''order-1'' msg0 (\<lambda>w. closingSocket) (joinRoom ''order-1'' 7 newManager)
     = (\<lparr>rooms = [(''order-1'', [])], allConnections = []\<rparr>, [])
   \<and> getRoomCount (fst (broadcast ''order-1'' msg0 (\<lambda>w. closingSocket) (joinRoom ''order-1'' 7 newManager))) = 1
   \<and> rooms (leaveRoom ''order-1'' 7 (joinRoom ''order-1'' 7 newManager)) = []"
  by (simp add: fanout_defs)

lemma set_set_add [simp]: "set (set_add x xs) = insert x (set xs)"
  by (auto simp: set_add_def)

lemma set_set_delete [simp]: "set (set_delete x xs) = set xs - {x}"
  by (simp add: set_delete_def)

lemma joinRoom_within:
  assumes "roomsWithinConnections m"
  shows "roomsWithinConnections (joinRoom oid w m)"
proof -
  define rs where "rs = (case map_of (rooms m) oid of None \<Rightarrow> AList.update oid [] (rooms m) | Some _ \<Rightarrow> rooms m)"
  define room where "room = (case map_of rs oid of None \<Rightarrow> [] | Some r \<Rightarrow> r)"
  have inv: "\<And>o' r. (o', r) \<in> set (rooms m) \<Longrightarrow> set r \<subseteq> set (allConnections m)"
    using assms by (auto simp: roomsWithinConnections_iff)
  have rs: "set r \<subseteq> set (allConnections m)" if "(o', r) \<in> set rs" for o' r
  proof -
    have "(o', r) = (oid, []) \<or> (o', r) \<in> set (rooms m)"
      using that in_update_cases [of o' r oid "[]" "rooms m"]
      by (auto simp: rs_def split: option.splits)
    then show ?thesis using inv by auto
  qed
  have room: "set room \<subseteq> set (allConnections m)"
  proof (cases "map_of rs oid")
    case None
    then show ?thesis by (simp add: room_def)
  next
    case (Some r)
    from rs [OF map_of_SomeD [OF Some]] show ?thesis by (simp add: room_def Some)
  qed
  have j: "joinRoom oid w m = m\<lparr>rooms := AList.update oid (set_add w room) rs,
             allConnections := set_add w (allConnections m)\<rparr>"
    by (simp add: joinRoom_def rs_def room_def Let_def)
  have "set r \<subseteq> insert w (set (allConnections m))"
    if "(o', r) \<in> set (AList.update oid (set_add w room) rs)" for o' r
  proof -
    from in_update_cases [OF that] show ?thesis
    proof
      assume "o' = oid \<and> r = set_add w room"
      then show ?thesis using room by auto
    next
      assume "(o', r) \<in> set rs"
      from rs [OF this] show ?thesis by auto
    qed
  qed
  then show ?thesis unfolding j by (auto simp: roomsWithinConnections_iff)
qed

lemma joinRoom_wf:
  assumes "roomsWellFormed m"
  shows "roomsWellFormed (joinRoom oid w m)"
  using assms
  by (auto simp: roomsWellFormed_def joinRoom_def Let_def AList.distinct_update split: option.splits)

lemma leaveRoom_within:
  assumes "roomsWellFormed m" and "roomsWithinConnections m" and "inNoOtherRoom oid w m"
  shows "roomsWithinConnections (leaveRoom oid w m)"
proof -
  have d: "distinct (map fst (rooms m))" using assms(1) by (simp add: roomsWellFormed_def)
  have inv: "\<And>o' r. (o', r) \<in> set (rooms m) \<Longrightarrow> set r \<subseteq> set (allConnections m)"
    using assms(2) by (auto simp: roomsWithinConnections_iff)
  have other: "\<And>o' r. (o', r) \<in> set (rooms m) \<Longrightarrow> o' \<noteq> oid \<Longrightarrow> w \<notin> set r"
    using assms(3) by (auto simp: inNoOtherRoom_iff)
  show ?thesis
  proof (cases "map_of (rooms m) oid")
    case None
    then have no: "\<And>r. (oid, r) \<notin> set (rooms m)"
      by (metis map_of_eq_None_iff image_eqI fst_conv)
    have "leaveRoom oid w m = m\<lparr>allConnections := set_delete w (allConnections m)\<rparr>"
      by (simp add: leaveRoom_def None)
    moreover have "set r \<subseteq> set (allConnections m) - {w}"
      if "(o', r) \<in> set (rooms m)" for o' r
      using that inv [of o' r] other [of o' r] no [of r] by (cases "o' = oid") auto
    ultimately show ?thesis
      by (auto simp: roomsWithinConnections_iff)
  next
    case (Some room)
    have room: "set room \<subseteq> set (allConnections m)" using inv map_of_SomeD [OF Some] by blast
    show ?thesis
    proof (cases "set_delete w room = []")
      case True
      have "leaveRoom oid w m = m\<lparr>rooms := AList.delete oid (rooms m),
               allConnections := set_delete w (allConnections m)\<rparr>"
        by (simp add: leaveRoom_def Some True)
      moreover have "set r \<subseteq> set (allConnections m) - {w}"
        if "(o', r) \<in> set (AList.delete oid (rooms m))" for o' r
        using that inv [of o' r] other [of o' r] by (auto simp: set_delete_eq)
      ultimately show ?thesis
        by (auto simp: roomsWithinConnections_iff)
    next
      case False
      have "leaveRoom oid w m = m\<lparr>rooms := AList.update oid (set_delete w room) (rooms m),
               allConnections := set_delete w (allConnections m)\<rparr>"
        using False by (simp add: leaveRoom_def Some)
      moreover have "set r \<subseteq> set (allConnections m) - {w}"
        if "(o', r) \<in> set (AList.update oid (set_delete w room) (rooms m))" for o' r
      proof -
        from in_update_distinct [OF d that] show ?thesis
        proof
          assume "o' = oid \<and> r = set_delete w room"
          then show ?thesis using room by auto
        next
          assume a: "o' \<noteq> oid \<and> (o', r) \<in> set (rooms m)"
          then show ?thesis using inv [of o' r] other [of o' r] by auto
        qed
      qed
      ultimately show ?thesis
        by (auto simp: roomsWithinConnections_iff)
    qed
  qed
qed

lemma leaveRoom_wf:
  assumes "roomsWellFormed m"
  shows "roomsWellFormed (leaveRoom oid w m)"
  using assms
  by (auto simp: roomsWellFormed_def leaveRoom_def Let_def AList.distinct_update AList.distinct_delete
           split: option.splits)

lemma broadcast_within:
  assumes "roomsWellFormed m" and "roomsWithinConnections m"
    and "list_all (\<lambda>v. reachable sk v \<or> inNoOtherRoom oid v m) (roomOf oid m)"
  shows "roomsWithinConnections (fst (broadcast oid message sk m))"
proof (cases "map_of (rooms m) oid")
  case None
  then show ?thesis using assms(2) by (simp add: broadcast_def)
next
  case (Some room)
  show ?thesis
  proof (cases "room = []")
    case True
    then show ?thesis using assms(2) Some by (simp add: broadcast_def)
  next
    case False
    have d: "distinct (map fst (rooms m))" using assms(1) by (simp add: roomsWellFormed_def)
    have inv: "\<And>o' r. (o', r) \<in> set (rooms m) \<Longrightarrow> set r \<subseteq> set (allConnections m)"
      using assms(2) by (auto simp: roomsWithinConnections_iff)
    have room: "set room \<subseteq> set (allConnections m)" using inv map_of_SomeD [OF Some] by blast
    have other: "v \<notin> set r"
      if "v \<in> set room" "\<not> reachable sk v" "(o', r) \<in> set (rooms m)" "o' \<noteq> oid" for v o' r
      using assms(3) that by (auto simp: roomOf_def Some list_all_iff inNoOtherRoom_iff)
    have "set r \<subseteq> set (filter (survives sk room) (allConnections m))"
      if "(o', r) \<in> set (AList.update oid (filter (reachable sk) room) (rooms m))" for o' r
    proof (cases "o' = oid")
      case True
      then have "r = filter (reachable sk) room"
        using in_update_distinct [OF d that] by auto
      then show ?thesis using room by (auto simp: survives_def)
    next
      case ne: False
      then have mem: "(o', r) \<in> set (rooms m)"
        using in_update_distinct [OF d that] by auto
      show ?thesis
      proof
        fix v assume v: "v \<in> set r"
        then have "v \<in> set (allConnections m)" using inv [OF mem] by blast
        moreover have "survives sk room v"
          using other [OF _ _ mem ne, of v] v by (auto simp: survives_def)
        ultimately show "v \<in> set (filter (survives sk room) (allConnections m))" by simp
      qed
    qed
    then show ?thesis
      unfolding broadcast_result [OF Some False]
      by (auto simp: roomsWithinConnections_iff)
  qed
qed

lemma broadcast_wf:
  assumes "roomsWellFormed m"
  shows "roomsWellFormed (fst (broadcast oid message sk m))"
proof (cases "map_of (rooms m) oid")
  case None
  then show ?thesis using assms by (simp add: broadcast_def)
next
  case (Some room)
  show ?thesis
  proof (cases "room = []")
    case True
    then show ?thesis using assms Some by (simp add: broadcast_def)
  next
    case False
    show ?thesis
      unfolding broadcast_result [OF Some False]
      using assms by (simp add: roomsWellFormed_def AList.distinct_update)
  qed
qed

text \<open>
  Claim C10, as the code has it. In a manager whose room map has one entry per order id, the
  invariant (every socket of every room is in \<open>allConnections\<close>) is preserved by \<open>joinRoom\<close> and
  by \<open>cleanup\<close> without condition, by \<open>leaveRoom oid w\<close> when \<open>w\<close> is in no room other than that
  of \<open>oid\<close>, and by \<open>broadcast oid\<close> when the unreachable sockets of the room are in no other
  room. The server joins every connection to one room only. All four operations keep the room
  map well formed.
\<close>

theorem connections_invariant_preserved:
  assumes "roomsWellFormed m" and "roomsWithinConnections m"
  shows "roomsWithinConnections (joinRoom oid w m)
       \<and> roomsWithinConnections (fst (cleanup m))
       \<and> (inNoOtherRoom oid w m \<longrightarrow> roomsWithinConnections (leaveRoom oid w m))
       \<and> (list_all (\<lambda>v. reachable sk v \<or> inNoOtherRoom oid v m) (roomOf oid m) \<longrightarrow>
            roomsWithinConnections (fst (broadcast oid message sk m)))
       \<and> roomsWellFormed (joinRoom oid w m)
       \<and> roomsWellFormed (leaveRoom oid w m)
       \<and> roomsWellFormed (fst (broadcast oid message sk m))
       \<and> roomsWellFormed (fst (cleanup m))"
  using joinRoom_within [OF assms(2)] joinRoom_wf [OF assms(1)] leaveRoom_wf [OF assms(1)]
    leaveRoom_within [OF assms] broadcast_within [OF assms] broadcast_wf [OF assms(1)]
  by (simp add: cleanup_def roomsWithinConnections_def roomsWellFormed_def)

theorem connections_invariant_preserved_witness:
  "roomsWellFormed oneRoom \<and> roomsWithinConnections oneRoom
   \<and> inNoOtherRoom ''order-1'' 7 oneRoom
   \<and> list_all (\<lambda>v. reachable (\<lambda>w. closingSocket) v \<or> inNoOtherRoom ''order-1'' v oneRoom)
        (roomOf ''order-1'' oneRoom)
   \<and> roomsWithinConnections (joinRoom ''order-1'' 7 oneRoom)
   \<and> roomsWithinConnections (leaveRoom ''order-1'' 7 oneRoom)
   \<and> roomsWithinConnections (fst (broadcast ''order-1'' msg0 (\<lambda>w. closingSocket) oneRoom))
   \<and> roomsWithinConnections (fst (cleanup oneRoom))"
proof -
  have wf: "roomsWellFormed oneRoom" and inv: "roomsWithinConnections oneRoom"
    by (simp_all add: oneRoom_def roomsWellFormed_def roomsWithinConnections_def fanout_defs)
  have pre: "inNoOtherRoom ''order-1'' 7 oneRoom"
    "list_all (\<lambda>v. reachable (\<lambda>w. closingSocket) v \<or> inNoOtherRoom ''order-1'' v oneRoom)
        (roomOf ''order-1'' oneRoom)"
    by (simp_all add: oneRoom_def inNoOtherRoom_def roomOf_def fanout_defs)
  show ?thesis
    using wf inv pre
      connections_invariant_preserved [where oid = "''order-1''" and w = 7
        and sk = "\<lambda>w. closingSocket" and message = msg0, OF wf inv]
    by simp
qed

text \<open>
  The claim as stated (every operation preserves the invariant) fails when a socket has
  joined two rooms: leaving one of them deletes it from \<open>allConnections\<close> while it stays in the
  other room.
\<close>

theorem connections_invariant_counterexample:
  "roomsWithinConnections twoRooms
   \<and> \<not> roomsWithinConnections (leaveRoom ''order-1'' 7 twoRooms)
   \<and> leaveRoom ''order-1'' 7 twoRooms = \<lparr>rooms = [(''order-2'', [7])], allConnections = []\<rparr>"
  by (simp add: twoRooms_def roomsWithinConnections_def fanout_defs)

section \<open>The order worker: one emission\<close>

lemma prismaOrderUpdate_eq:
  "prismaOrderUpdate oid st d w =
     (if accepted oid w
      then (Inr (), w\<lparr>faults := tl (faults w), store := (store w)(oid \<mapsto> storedRow oid st d w),
                     trace := trace w @ [Persisted oid (storedRow oid st d w)]\<rparr>)
      else (Inl (rejection oid w), w\<lparr>faults := tl (faults w)\<rparr>))"
  by (auto simp: prismaOrderUpdate_def accepted_def rejection_def storedRow_def nextFault_def Let_def
           split: list.splits option.splits)

lemma updateOrderStatus_eq:
  "updateOrderStatus oid st d wd w =
     (if accepted oid w then (Inr (), committed oid st d wd w)
      else (Inl (rejection oid w), w\<lparr>faults := tl (faults w)\<rparr>))"
  by (simp add: updateOrderStatus_def prismaOrderUpdate_eq committed_def Let_def split_beta)

lemma committed_simps [simp]:
  "trace (committed oid st d wd w) =
     trace w @ [Persisted oid (storedRow oid st d w), Broadcast (createStatusMessage oid st wd)]"
  "faults (committed oid st d wd w) = tl (faults w)"
  "store (committed oid st d wd w) = (store w)(oid \<mapsto> storedRow oid st d w)"
  "socks (committed oid st d wd w) = socks w"
  by (simp_all add: committed_def)

lemma rejected_simps [simp]:
  "accepted oid (w\<lparr>faults := fs\<rparr>) = (nextFault fs = None \<and> store w oid \<noteq> None)"
  "accepted oid (w\<lparr>trace := t\<rparr>) = accepted oid w"
  "rejection oid (w\<lparr>trace := t\<rparr>) = rejection oid w"
  by (simp_all add: accepted_def rejection_def)

lemma accepted_committed [simp]:
  "accepted oid (committed oid st d wd w) = (nextFault (tl (faults w)) = None)"
  by (simp add: accepted_def)

lemma storedRow_committed [simp]:
  "storedRow oid st' d' (committed oid st d wd w) = applyUpdate st' d' (storedRow oid st d w)"
  by (simp add: storedRow_def)

lemma andThen_simps [simp]:
  "andThen (Inl e, w) f = (Inl e, w)"
  "andThen (Inr x, w) f = f x w"
  by (simp_all add: andThen_def)

lemma rejection_committed [simp]:
  "rejection oid (committed oid st d wd w) = rejection oid (w\<lparr>faults := tl (faults w)\<rparr>)"
  by (simp add: rejection_def)
  

lemma noFault_step:
  assumes "list_all (\<lambda>f. f = None) (take (Suc n) fs)"
  shows "nextFault fs = None \<and> list_all (\<lambda>f. f = None) (take n (tl fs))"
  using assms by (cases fs) (auto simp: nextFault_def split: option.splits)

lemma dex_name_nonempty [simp]: "dex_name d \<noteq> []"
  by (cases d) simp_all

lemma swapDex_executeSwap [simp]: "swapDex (executeSwap a b c d q s) = d"
  by (simp add: executeSwap_def Let_def)

lemma andThen_cong_fun:
  "(\<And>x w. f x w = g x w) \<Longrightarrow> andThen m f = andThen m g"
  by (cases m) (auto simp: andThen_def split: sum.splits)

lemma andThen_return [simp]: "andThen m (\<lambda>x w. (Inr x, w)) = m"
  by (cases m) (auto simp: andThen_def split: sum.splits)

lemma andThen_assoc:
  "andThen (andThen m f) g = andThen m (\<lambda>x w. andThen (f x w) g)"
  by (cases m) (auto simp: andThen_def split: sum.splits)

lemma emitSteps_single:
  "emitSteps oid [(st, d, wd)] w = updateOrderStatus oid st d wd w"
proof -
  have a: "(\<lambda>(_::unit) w'. emitSteps oid [] w') = (\<lambda>x w'. (Inr x, w'))"
    by (intro ext) simp
  show ?thesis unfolding emitSteps.simps a by (rule andThen_return)
qed

lemma processOrderTry_steps:
  assumes "r = compareAndRoute (tokenIn (jobData job)) (tokenOut (jobData job)) (amount (jobData job)) rs"
    and "sr = executeSwap (tokenIn (jobData job)) (tokenOut (jobData job)) (amount (jobData job))
                (selectedDex r) (quotedPriceOf r) ss"
  shows "processOrderTry job rs ss w =
     andThen (emitSteps (orderId (jobData job)) (routingSteps r) w) (\<lambda>_ w'.
       if success sr then emitSteps (orderId (jobData job)) [confirmedStep r sr] w'
       else (Inl swapFailedError, w'))"
proof -
  have "processOrderTry job rs ss w =
     andThen (updateOrderStatus (orderId (jobData job)) pending noData None w) (\<lambda>_ w.
     andThen (updateOrderStatus (orderId (jobData job)) routing noData None w) (\<lambda>_ w.
     andThen (updateOrderStatus (orderId (jobData job)) routing
                (noData\<lparr>u_dex := Some (dex_name (selectedDex r))\<rparr>) (Some (routedData r)) w) (\<lambda>_ w.
     andThen (updateOrderStatus (orderId (jobData job)) building noData (Some (routedData r)) w) (\<lambda>_ w.
     andThen (updateOrderStatus (orderId (jobData job)) submitted noData (Some (routedData r)) w) (\<lambda>_ w.
       if success sr then emitSteps (orderId (jobData job)) [confirmedStep r sr] w
       else (Inl swapFailedError, w))))))"
    unfolding processOrderTry_def Let_def assms quotedPriceOf_def emitSteps_single confirmedStep_def
    by (rule refl)
  also have "\<dots> = andThen (emitSteps (orderId (jobData job)) (routingSteps r) w) (\<lambda>_ w'.
       if success sr then emitSteps (orderId (jobData job)) [confirmedStep r sr] w'
       else (Inl swapFailedError, w'))"
    unfolding routingSteps_def emitSteps.simps andThen_assoc
    by (intro andThen_cong_fun) simp
  finally show ?thesis .
qed

section \<open>The order worker: sequences of emissions\<close>

lemma broadcasts_append [simp]: "broadcasts (a @ b) = broadcasts a @ broadcasts b"
  by (induction a rule: broadcasts.induct) simp_all

lemma emitSteps_rejected:
  "\<not> accepted oid w \<Longrightarrow>
     emitSteps oid ((st, d, wd) # rest) w = (Inl (rejection oid w), w\<lparr>faults := tl (faults w)\<rparr>)"
  by (simp add: updateOrderStatus_eq)

lemma emitSteps_accepted:
  "accepted oid w \<Longrightarrow>
     emitSteps oid ((st, d, wd) # rest) w = emitSteps oid rest (committed oid st d wd w)"
  by (simp add: updateOrderStatus_eq)

lemma emitSteps_messages:
  "\<exists>k \<le> length steps.
     broadcasts (trace (snd (emitSteps oid steps w))) =
       broadcasts (trace w) @ map (stepMessage oid) (take k steps) \<and>
     (isl (fst (emitSteps oid steps w)) \<longleftrightarrow> k < length steps)"
proof (induction steps arbitrary: w)
  case Nil
  show ?case by simp
next
  case (Cons s steps)
  obtain st d wd where s: "s = (st, d, wd)" by (cases s) auto
  show ?case
  proof (cases "accepted oid w")
    case False
    have "broadcasts (trace (snd (emitSteps oid (s # steps) w))) =
            broadcasts (trace w) @ map (stepMessage oid) (take 0 (s # steps))
          \<and> (isl (fst (emitSteps oid (s # steps) w)) \<longleftrightarrow> 0 < length (s # steps))"
      unfolding s emitSteps_rejected [OF False] by simp
    then show ?thesis by blast
  next
    case True
    from Cons.IH [of "committed oid st d wd w"] obtain k where k: "k \<le> length steps"
      "broadcasts (trace (snd (emitSteps oid steps (committed oid st d wd w)))) =
         broadcasts (trace (committed oid st d wd w)) @ map (stepMessage oid) (take k steps)"
      "isl (fst (emitSteps oid steps (committed oid st d wd w))) \<longleftrightarrow> k < length steps"
      by blast
    have "Suc k \<le> length (s # steps)" using k(1) by simp
    moreover have "broadcasts (trace (snd (emitSteps oid (s # steps) w))) =
            broadcasts (trace w) @ map (stepMessage oid) (take (Suc k) (s # steps))"
      unfolding s emitSteps_accepted [OF True] k(2) by (simp add: stepMessage_def)
    moreover have "isl (fst (emitSteps oid (s # steps) w)) \<longleftrightarrow> Suc k < length (s # steps)"
      unfolding s emitSteps_accepted [OF True] k(3) by simp
    ultimately show ?thesis by blast
  qed
qed

lemma emitSteps_no_fault:
  assumes "store w oid \<noteq> None" and "list_all (\<lambda>f. f = None) (take (length steps) (faults w))"
  shows "fst (emitSteps oid steps w) = Inr ()
       \<and> store (snd (emitSteps oid steps w)) oid \<noteq> None
       \<and> faults (snd (emitSteps oid steps w)) = drop (length steps) (faults w)
       \<and> broadcasts (trace (snd (emitSteps oid steps w))) =
           broadcasts (trace w) @ map (stepMessage oid) steps"
  using assms
proof (induction steps arbitrary: w)
  case Nil
  then show ?case by simp
next
  case (Cons s steps)
  obtain st d wd where s: "s = (st, d, wd)" by (cases s) auto
  from Cons.prems(2) have nf: "nextFault (faults w) = None"
    and rest: "list_all (\<lambda>f. f = None) (take (length steps) (tl (faults w)))"
    using noFault_step [of "length steps" "faults w"] by simp_all
  have acc: "accepted oid w" using nf Cons.prems(1) by (simp add: accepted_def)
  define w' where "w' = committed oid st d wd w"
  have w': "store w' oid \<noteq> None" "faults w' = tl (faults w)"
    "broadcasts (trace w') = broadcasts (trace w) @ [stepMessage oid s]"
    by (simp_all add: w'_def s stepMessage_def)
  note ih = Cons.IH [of w', OF w'(1), unfolded w'(2), OF rest]
  show ?case
    unfolding s emitSteps_accepted [OF acc] w'_def [symmetric]
    using ih w'(3) by (simp add: s drop_Suc)
qed

lemma persistedFirst_append_pair:
  assumes "persistedFirst t" and "msgOrderId m = oid" and "msgStatus m = rowStatus row"
    and "rowCovers row m"
  shows "persistedFirst (t @ [Persisted oid row, Broadcast m])"
  using assms by (induction t rule: persistedFirst.induct) simp_all

lemma emitSteps_persistedFirst:
  assumes "persistedFirst (trace w)"
    and "\<And>row. store w oid = Some row \<Longrightarrow> stepsCovered oid row steps"
  shows "persistedFirst (trace (snd (emitSteps oid steps w)))"
  using assms
proof (induction steps arbitrary: w)
  case Nil
  then show ?case by simp
next
  case (Cons s steps)
  obtain st d wd where s: "s = (st, d, wd)" by (cases s) auto
  show ?case
  proof (cases "accepted oid w")
    case False
    show ?thesis unfolding s emitSteps_rejected [OF False] using Cons.prems(1) by simp
  next
    case True
    then obtain row where row: "store w oid = Some row" by (auto simp: accepted_def)
    have cov: "rowCovers (applyUpdate st d row) (createStatusMessage oid st wd)"
      "stepsCovered oid (applyUpdate st d row) steps"
      using Cons.prems(2) [OF row] by (simp_all add: s)
    define w' where "w' = committed oid st d wd w"
    have sr: "storedRow oid st d w = applyUpdate st d row" by (simp add: storedRow_def row)
    have "persistedFirst (trace w')"
      unfolding w'_def committed_simps sr
      by (rule persistedFirst_append_pair [OF Cons.prems(1) _ _ cov(1)])
         (simp_all add: createStatusMessage_def applyUpdate_def)
    moreover have "store w' oid = Some (applyUpdate st d row)" by (simp add: w'_def sr)
    ultimately have "persistedFirst (trace (snd (emitSteps oid steps w')))"
      using cov(2) by (intro Cons.IH) simp_all
    then show ?thesis unfolding s emitSteps_accepted [OF True] w'_def .
  qed
qed

lemma routingSteps_covered: "stepsCovered oid row (routingSteps r)"
  by (simp add: routingSteps_def rowCovers_def createStatusMessage_def applyUpdate_def routedData_def
        emptyData_def noData_def truthyString_def truthyNumber_def orElse_def)

lemma confirmedStep_covered: "stepsCovered oid row [confirmedStep r sr]"
  by (simp add: confirmedStep_def rowCovers_def createStatusMessage_def applyUpdate_def confirmedData_def
        emptyData_def truthyString_def truthyNumber_def orElse_def)

lemma failedStep_covered: "stepsCovered oid row [failedStep text]"
  by (simp add: failedStep_def rowCovers_def createStatusMessage_def applyUpdate_def
        emptyData_def noData_def truthyString_def truthyNumber_def orElse_def)

lemma andThen_inv:
  assumes "P (snd m)" and "\<And>x w. P w \<Longrightarrow> P (snd (f x w))"
  shows "P (snd (andThen m f))"
  using assms by (cases m) (auto simp: andThen_def split: sum.splits)

lemma processOrder_persistedFirst:
  assumes "persistedFirst (trace w)"
  shows "persistedFirst (trace (snd (processOrder job rs ss w)))"
proof -
  define r where "r = compareAndRoute (tokenIn (jobData job)) (tokenOut (jobData job)) (amount (jobData job)) rs"
  define sr where "sr = executeSwap (tokenIn (jobData job)) (tokenOut (jobData job)) (amount (jobData job))
                (selectedDex r) (quotedPriceOf r) ss"
  define oid where "oid = orderId (jobData job)"
  have one: "persistedFirst (trace (snd (emitSteps oid [s] w')))"
    if "persistedFirst (trace w')" "\<And>row. stepsCovered oid row [s]" for s w'
    using that by (intro emitSteps_persistedFirst) simp_all
  have tr: "persistedFirst (trace (snd (processOrderTry job rs ss w)))"
    unfolding processOrderTry_steps [OF r_def sr_def] oid_def [symmetric]
  proof (rule andThen_inv)
    show "persistedFirst (trace (snd (emitSteps oid (routingSteps r) w)))"
      using assms by (intro emitSteps_persistedFirst routingSteps_covered)
  next
    fix x :: unit and w' :: World assume "persistedFirst (trace w')"
    then show "persistedFirst (trace (snd (if success sr then emitSteps oid [confirmedStep r sr] w'
                 else (Inl swapFailedError, w'))))"
      using one [OF _ confirmedStep_covered, of w' r sr] by (cases "success sr") simp_all
  qed
  obtain res w1 where T: "processOrderTry job rs ss w = (res, w1)" by (cases "processOrderTry job rs ss w")
  have w1: "persistedFirst (trace w1)" using tr T by simp
  have f: "persistedFirst (trace (snd (updateOrderStatus oid failed (noData\<lparr>u_error := Some emsg\<rparr>)
              (Some (emptyData\<lparr>d_error := Some emsg\<rparr>)) w1)))" for emsg
    using one [OF w1 failedStep_covered, of emsg] unfolding failedStep_def emitSteps_single .
  show ?thesis
  proof (cases res)
    case (Inl err)
    show ?thesis
      unfolding processOrder_def T Inl oid_def [symmetric] Let_def
      using w1 f [of "errorMessageOf err"] by (auto split: sum.splits prod.splits)
  next
    case (Inr u)
    show ?thesis unfolding processOrder_def T Inr using w1 by simp
  qed
qed

section \<open>The order worker: one attempt\<close>

lemma processOrder_after_try:
  assumes "oid = orderId (jobData job)"
  shows "processOrderTry job rs ss w = (Inr u, w1) \<Longrightarrow> processOrder job rs ss w = (Inr u, w1)"
    and "processOrderTry job rs ss w = (Inl err, w1) \<Longrightarrow>
       processOrder job rs ss w =
        (if finalAttempt job
         then (if accepted oid w1
               then (Inl err, committed oid failed (noData\<lparr>u_error := Some (errorMessageOf err)\<rparr>)
                                (Some (emptyData\<lparr>d_error := Some (errorMessageOf err)\<rparr>)) w1)
               else (Inl (rejection oid w1), w1\<lparr>faults := tl (faults w1)\<rparr>))
         else (Inl err, w1))"
  by (simp_all add: processOrder_def finalAttempt_def updateOrderStatus_eq Let_def assms)

lemma processOrderTry_cases:
  assumes "r = compareAndRoute (tokenIn (jobData job)) (tokenOut (jobData job)) (amount (jobData job)) rs"
    and "sr = executeSwap (tokenIn (jobData job)) (tokenOut (jobData job)) (amount (jobData job))
                (selectedDex r) (quotedPriceOf r) ss"
    and "oid = orderId (jobData job)"
  shows "emitSteps oid (routingSteps r) w = (Inl e, w1) \<Longrightarrow> processOrderTry job rs ss w = (Inl e, w1)"
    and "emitSteps oid (routingSteps r) w = (Inr u, w1) \<Longrightarrow> success sr \<Longrightarrow>
           processOrderTry job rs ss w = emitSteps oid [confirmedStep r sr] w1"
    and "emitSteps oid (routingSteps r) w = (Inr u, w1) \<Longrightarrow> \<not> success sr \<Longrightarrow>
           processOrderTry job rs ss w = (Inl swapFailedError, w1)"
  unfolding processOrderTry_steps [OF assms(1,2)] assms(3) by simp_all

lemma failedEvents_append [simp]: "failedEvents (a @ b) = failedEvents a @ failedEvents b"
  by (simp add: failedEvents_def)

lemma emitSteps_failedEvents:
  assumes "list_all (\<lambda>s. fst s \<noteq> failed) steps"
  shows "failedEvents (trace (snd (emitSteps oid steps w))) = failedEvents (trace w)"
  using assms
proof (induction steps arbitrary: w)
  case Nil
  show ?case by simp
next
  case (Cons s steps)
  obtain st d wd where s: "s = (st, d, wd)" by (cases s) auto
  have st: "st \<noteq> failed" and rest: "list_all (\<lambda>s. fst s \<noteq> failed) steps"
    using Cons.prems by (simp_all add: s)
  show ?case
  proof (cases "accepted oid w")
    case False
    show ?thesis unfolding s emitSteps_rejected [OF False] by simp
  next
    case True
    have "failedEvents (trace (committed oid st d wd w)) = failedEvents (trace w)"
      using st by (simp add: failedEvents_def storedRow_def applyUpdate_def createStatusMessage_def)
    then show ?thesis
      unfolding s emitSteps_accepted [OF True] using Cons.IH [OF rest, of "committed oid st d wd w"]
      by simp
  qed
qed

lemma processOrderTry_failedEvents:
  "failedEvents (trace (snd (processOrderTry job rs ss w))) = failedEvents (trace w)"
proof -
  define r where "r = compareAndRoute (tokenIn (jobData job)) (tokenOut (jobData job)) (amount (jobData job)) rs"
  define sr where "sr = executeSwap (tokenIn (jobData job)) (tokenOut (jobData job)) (amount (jobData job))
                (selectedDex r) (quotedPriceOf r) ss"
  define oid where "oid = orderId (jobData job)"
  show ?thesis
    unfolding processOrderTry_steps [OF r_def sr_def] oid_def [symmetric]
  proof (rule andThen_inv [where P = "\<lambda>w'. failedEvents (trace w') = failedEvents (trace w)"])
    show "failedEvents (trace (snd (emitSteps oid (routingSteps r) w))) = failedEvents (trace w)"
      by (rule emitSteps_failedEvents) (simp add: routingSteps_def)
  next
    fix x :: unit and w' :: World
    assume a: "failedEvents (trace w') = failedEvents (trace w)"
    have "failedEvents (trace (snd (emitSteps oid [confirmedStep r sr] w'))) = failedEvents (trace w')"
      by (rule emitSteps_failedEvents) (simp add: confirmedStep_def)
    then show "failedEvents (trace (snd (if success sr then emitSteps oid [confirmedStep r sr] w'
                 else (Inl swapFailedError, w')))) = failedEvents (trace w)"
      using a by (cases "success sr") simp_all
  qed
qed

lemma nextFault_drop:
  "list_all (\<lambda>f. f = None) (take (Suc n) fs) \<Longrightarrow> nextFault (drop n fs) = None"
proof (induction n arbitrary: fs)
  case 0
  then show ?case using noFault_step [of 0 fs] by simp
next
  case (Suc n)
  from noFault_step [OF Suc.prems] have "list_all (\<lambda>f. f = None) (take (Suc n) (tl fs))" by simp
  from Suc.IH [OF this] show ?case by (simp add: drop_Suc)
qed

lemma list_all_take_le:
  "list_all P (take n xs) \<Longrightarrow> m \<le> n \<Longrightarrow> list_all P (take m xs)"
  by (metis list_all_append min.absorb1 take_add le_iff_add take_take min.commute)

lemma catch_messages:
  assumes "processOrderTry job rs ss w = (Inl err, wT)" and "oid = orderId (jobData job)"
  shows "\<exists>t. broadcasts (trace (snd (processOrder job rs ss w))) = broadcasts (trace wT) @ t \<and>
             (t = [] \<or> finalAttempt job \<and> t = [failedMessage oid (errorMessageOf err)])"
  unfolding processOrder_after_try(2) [OF assms(2,1)]
  by (simp add: failedMessage_def)

lemma routingSteps_messages:
  "map (stepMessage oid) (routingSteps r) =
     [createStatusMessage oid pending None, createStatusMessage oid routing None,
      createStatusMessage oid routing (Some (routedData r)),
      createStatusMessage oid building (Some (routedData r)),
      createStatusMessage oid submitted (Some (routedData r))]"
  by (simp add: routingSteps_def stepMessage_def)

lemma emission_shape:
  "(case updateOrderStatus oid st d wd w of
       (Inl e, w') \<Rightarrow> trace w' = trace w \<and> store w' = store w
     | (Inr u, w') \<Rightarrow>
         (\<exists>row. store w' oid = Some row \<and> rowStatus row = st \<and>
            trace w' = trace w @ [Persisted oid row, Broadcast (createStatusMessage oid st wd)]))"
  by (simp add: updateOrderStatus_eq storedRow_def applyUpdate_def)

section \<open>Running the worker on examples\<close>

lemmas run_defs = processOrder_def processOrderTry_def Let_def updateOrderStatus_eq
  accepted_def nextFault_def rejection_def world0_def job0_def jobFinal_def worldFaulty_def worldDown_def
  maxAttempts_def finalAttempt_def errorMessageOf_def

lemma faulty_try:
  "fst (processOrderTry jobFinal routeSamples0 swapSamples0 (worldFaulty\<lparr>trace := []\<rparr>))
     = Inl (JsError ''connection lost'')"
  by (simp add: run_defs)

lemma faulty_messages:
  "map msgStatus (attemptMessages jobFinal routeSamples0 swapSamples0 worldFaulty)
     = [pending, routing, routing, failed]"
  by (simp add: attemptMessages_def attemptTrace_def run_defs createStatusMessage_def)

lemma down_run:
  "fst (processOrderTry jobFinal routeSamples0 swapSamples0 (worldDown\<lparr>trace := []\<rparr>))
     = Inl (JsError ''connection lost'')
   \<and> attemptTrace jobFinal routeSamples0 swapSamples0 worldDown = []
   \<and> fst (processOrder jobFinal routeSamples0 swapSamples0 (worldDown\<lparr>trace := []\<rparr>))
     = Inl (JsError ''connection lost'')"
  by (simp add: attemptTrace_def run_defs)

lemma ok_run:
  "map msgStatus (attemptMessages job0 routeSamples0 swapSamples0 world0)
     = [pending, routing, routing, building, submitted, confirmed]
   \<and> length (attemptTrace job0 routeSamples0 swapSamples0 world0) = 12
   \<and> fst (processOrder job0 routeSamples0 swapSamples0 (world0\<lparr>trace := []\<rparr>)) = Inr ()"
  by (simp add: attemptMessages_def attemptTrace_def run_defs createStatusMessage_def
        executeSwap_def swapSamples0_def)

section \<open>Claims about the order worker\<close>




text \<open>
  Claim C3, as the code has it. When the \<open>try\<close> block of an attempt raises \<open>err\<close>, the
  processor raises to the queue in every case. On an attempt that is not final it raises
  \<open>err\<close> and neither writes nor broadcasts a failed status. On the final attempt
  (\<open>attemptsMade + 1 >= attempts\<close>, 3 when unset) it updates the store to failed with the
  error message: when the store accepts, the failed row is written, the failed message is
  broadcast after it, and \<open>err\<close> is raised; when the store rejects, nothing is written or
  broadcast, and the store's own error is raised in place of \<open>err\<close>.
\<close>

theorem failure_policy:
  assumes "processOrderTry job rs ss (w\<lparr>trace := []\<rparr>) = (Inl err, w1)"
    and "oid = orderId (jobData job)"
    and "emsg = errorMessageOf err"
    and "result = processOrder job rs ss (w\<lparr>trace := []\<rparr>)"
  shows "isl (fst result)
     \<and> (\<not> finalAttempt job \<longrightarrow> result = (Inl err, w1) \<and> failedEvents (trace (snd result)) = [])
     \<and> (finalAttempt job \<and> accepted oid w1 \<longrightarrow>
          fst result = Inl err \<and>
          (\<exists>row. store (snd result) oid = Some row \<and> rowStatus row = failed \<and>
                 (emsg \<noteq> [] \<longrightarrow> rowError row = Some emsg) \<and>
                 failedEvents (trace (snd result)) = [Persisted oid row, Broadcast (failedMessage oid emsg)]))
     \<and> (finalAttempt job \<and> \<not> accepted oid w1 \<longrightarrow>
          fst result = Inl (rejection oid w1) \<and> store (snd result) = store w1 \<and>
          failedEvents (trace (snd result)) = [])"
proof -
  have fe: "failedEvents (trace w1) = []"
    using processOrderTry_failedEvents [of job rs ss "w\<lparr>trace := []\<rparr>"] assms(1)
    by (simp add: failedEvents_def)
  note res = processOrder_after_try(2) [OF assms(2,1), folded assms(3,4)]
  have nonfinal: "result = (Inl err, w1) \<and> failedEvents (trace (snd result)) = []"
    if "\<not> finalAttempt job"
    using that res fe by simp
  have acc: "fst result = Inl err \<and>
          (\<exists>row. store (snd result) oid = Some row \<and> rowStatus row = failed \<and>
                 (emsg \<noteq> [] \<longrightarrow> rowError row = Some emsg) \<and>
                 failedEvents (trace (snd result)) = [Persisted oid row, Broadcast (failedMessage oid emsg)])"
    if "finalAttempt job" "accepted oid w1"
    using that res fe
    by (simp add: storedRow_def applyUpdate_def noData_def truthyString_def orElse_def
          failedEvents_def failedMessage_def createStatusMessage_def)
  have rej: "fst result = Inl (rejection oid w1) \<and> store (snd result) = store w1 \<and>
          failedEvents (trace (snd result)) = []"
    if "finalAttempt job" "\<not> accepted oid w1"
    using that res fe by simp
  have "isl (fst result)" using res by (simp split: if_splits)
  then show ?thesis using nonfinal acc rej by blast
qed

theorem failure_policy_witness:
  "fst (processOrderTry jobFinal routeSamples0 swapSamples0 (worldFaulty\<lparr>trace := []\<rparr>))
     = Inl (JsError ''connection lost'')
   \<and> finalAttempt jobFinal
   \<and> accepted ''order-1'' (snd (processOrderTry jobFinal routeSamples0 swapSamples0 (worldFaulty\<lparr>trace := []\<rparr>)))
   \<and> fst (processOrder jobFinal routeSamples0 swapSamples0 (worldFaulty\<lparr>trace := []\<rparr>))
     = Inl (JsError ''connection lost'')
   \<and> (\<exists>row. store (snd (processOrder jobFinal routeSamples0 swapSamples0 (worldFaulty\<lparr>trace := []\<rparr>))) ''order-1''
               = Some row \<and>
            rowStatus row = failed \<and> rowError row = Some ''connection lost'' \<and>
            failedEvents (trace (snd (processOrder jobFinal routeSamples0 swapSamples0 (worldFaulty\<lparr>trace := []\<rparr>))))
               = [Persisted ''order-1'' row, Broadcast (failedMessage ''order-1'' ''connection lost'')])"
proof -
  have t: "processOrderTry jobFinal routeSamples0 swapSamples0 (worldFaulty\<lparr>trace := []\<rparr>)
      = (Inl (JsError ''connection lost''),
         snd (processOrderTry jobFinal routeSamples0 swapSamples0 (worldFaulty\<lparr>trace := []\<rparr>)))"
    using faulty_try by (simp add: prod_eq_iff)
  have fin: "finalAttempt jobFinal"
    by (simp add: finalAttempt_def maxAttempts_def jobFinal_def job0_def)
  have acc: "accepted ''order-1'' (snd (processOrderTry jobFinal routeSamples0 swapSamples0 (worldFaulty\<lparr>trace := []\<rparr>)))"
    by (simp add: run_defs)
  have oid: "orderId (jobData jobFinal) = ''order-1''" by (simp add: jobFinal_def job0_def)
  show ?thesis
    using failure_policy [OF t refl refl refl] fin acc faulty_try
    by (simp add: oid errorMessageOf_def)
qed

text \<open>
  The claim as stated (failed is persisted and broadcast whenever the failing attempt is final)
  fails when the store is still unreachable in the handler: the final attempt raises, and no
  failed status is written or broadcast.
\<close>

theorem failure_policy_counterexample:
  "isl (fst (processOrderTry jobFinal routeSamples0 swapSamples0 (worldDown\<lparr>trace := []\<rparr>)))
   \<and> finalAttempt jobFinal
   \<and> failedEvents (attemptTrace jobFinal routeSamples0 swapSamples0 worldDown) = []
   \<and> fst (processOrder jobFinal routeSamples0 swapSamples0 (worldDown\<lparr>trace := []\<rparr>))
       = Inl (JsError ''connection lost'')"
  using down_run
  by (simp add: finalAttempt_def maxAttempts_def jobFinal_def job0_def failedEvents_def)



end
